theory Spec2Isabelle
  imports Complex_Main "HOL-Library.Word"
begin

section \<open>Python results: exceptions as values\<close>

datatype FrameType = SINGLE | GROUP

datatype error =
    KeyError
  | IndexError
  | ValueError
  | ZeroDivisionError
  | OverflowError
  | TypeError
  | UnboundLocalError
  | FileNotFoundError
  | NonStaticFrameType FrameType
  | StaticFrameCount nat
  | StaticFrameType FrameType

section \<open>simplify_pydata\<close>

fun list_index :: "'a list \<Rightarrow> 'a \<Rightarrow> error + nat" where
  "list_index [] x = Inl ValueError"
| "list_index (y # ys) x =
     (if y = x then Inr 0
      else case list_index ys x of Inl e \<Rightarrow> Inl e | Inr k \<Rightarrow> Inr (Suc k))"

fun simplify_tri :: "nat list \<Rightarrow> nat list \<Rightarrow> error + (nat list \<times> nat list)" where
  "simplify_tri vert_map [] = Inr (vert_map, [])"
| "simplify_tri vert_map (vert_idx # rest) =
     (let vert_map1 = (if vert_idx \<notin> set vert_map then vert_map @ [vert_idx] else vert_map)
      in case list_index vert_map1 vert_idx of
           Inl e \<Rightarrow> Inl e
         | Inr k \<Rightarrow>
             (case simplify_tri vert_map1 rest of
                Inl e \<Rightarrow> Inl e
              | Inr (vert_map2, new_tri) \<Rightarrow> Inr (vert_map2, k # new_tri)))"

fun simplify_tris :: "nat list \<Rightarrow> nat list list \<Rightarrow> error + (nat list \<times> nat list list)" where
  "simplify_tris vert_map [] = Inr (vert_map, [])"
| "simplify_tris vert_map (tri # rest) =
     (case simplify_tri vert_map tri of
        Inl e \<Rightarrow> Inl e
      | Inr (vert_map1, new_tri) \<Rightarrow>
          (case simplify_tris vert_map1 rest of
             Inl e \<Rightarrow> Inl e
           | Inr (vert_map2, new_tris) \<Rightarrow> Inr (vert_map2, new_tri # new_tris)))"

fun gather :: "'a list \<Rightarrow> nat list \<Rightarrow> error + 'a list" where
  "gather verts [] = Inr []"
| "gather verts (i # is) =
     (if i < length verts
      then (case gather verts is of Inl e \<Rightarrow> Inl e | Inr vs \<Rightarrow> Inr (verts ! i # vs))
      else Inl IndexError)"

type_synonym 'a pydata = "'a list \<times> (nat \<times> nat) list \<times> nat list list"

definition simplify_pydata ::
  "'a list \<Rightarrow> nat list list \<Rightarrow> error + ('a pydata \<times> nat list)" where
  "simplify_pydata verts tris =
     (case simplify_tris [] tris of
        Inl e \<Rightarrow> Inl e
      | Inr (vert_map, new_tris) \<Rightarrow>
          (case gather verts vert_map of
             Inl e \<Rightarrow> Inl e
           | Inr new_verts \<Rightarrow> Inr ((new_verts, [], new_tris), vert_map)))"

text \<open>
  The order of first use: every element once, at the place of its first occurrence
  (\<open>remdups\<close> keeps last occurrences, hence the two reversals).
\<close>

definition first_use_order :: "'a list \<Rightarrow> 'a list" where
  "first_use_order xs = rev (remdups (rev xs))"

definition add_first :: "'a \<Rightarrow> 'a list \<Rightarrow> 'a list" where
  "add_first v vm = (if v \<notin> set vm then vm @ [v] else vm)"


section \<open>The asset model (consumed, not owned)\<close>

text \<open>
  The model loader of the repository is not part of the sources at hand; the model object is
  taken as a parameter with exactly the attributes \<open>blendmdl.py\<close> reads: frames (each a
  single pose, or a group of poses with per-pose times), triangles, the disjoint triangle
  sets, skins, the skin dimensions of the header, and the two lookups \<open>get_tri_tcs\<close> and
  \<open>get_tri_skin\<close>. Coordinates, times and texel values are floating-point numbers in the
  program; they are only copied, scaled and compared here and are represented by rationals.
\<close>

type_synonym vert = "rat list"
type_synonym uv = "rat \<times> rat"

record simple_frame =
  sf_name :: string
  frame_verts :: "vert list"

datatype frame = Single simple_frame | Group "simple_frame list" "rat list"

fun frame_type :: "frame \<Rightarrow> FrameType" where
  "frame_type (Single sf) = SINGLE"
| "frame_type (Group sfs ts) = GROUP"

record alias_model =
  am_frames :: "frame list"
  am_tris :: "nat list list"
  disjoint_tri_sets :: "nat list list"
  am_skins :: "nat list list list"
  skin_width :: int
  skin_height :: int
  get_tri_tcs :: "nat \<Rightarrow> (rat \<times> rat) list"
  get_tri_skin :: "nat \<Rightarrow> nat \<Rightarrow> bool list \<times> nat list"

section \<open>The host application's object model\<close>

text \<open>
  Objects, meshes, shape keys, materials and images live in the host. References to them are
  indices into the host's collections (materials are referenced by name, as the program looks
  them up). A function that raises returns \<open>Inl\<close> of the exception; the host state left
  behind by a call that raised is not represented.
\<close>

datatype interpolation = BEZIER | LINEAR

record keyframe_point =
  kf_frame :: int
  kf_value :: rat
  kf_interpolation :: interpolation

record shape_key =
  sk_name :: string
  sk_data :: "vert list"
  sk_value :: rat
  keyframe_points :: "keyframe_point list"

record mesh =
  mesh_name :: string
  mesh_verts :: "vert list"
  mesh_edges :: "(nat \<times> nat) list"
  mesh_faces :: "nat list list"
  mesh_materials :: "string list"
  uv_layers :: "uv list list list"

record bobject =
  ob_name :: string
  ob_data :: "nat option"
  ob_parent :: "nat option"
  shape_keys :: "shape_key list"

datatype cfg_val = CBool bool | CNum rat

fun truthy :: "cfg_val \<Rightarrow> bool" where
  "truthy (CBool b) = b"
| "truthy (CNum x) = (x \<noteq> 0)"

type_synonym array_im = "rat list list list"

datatype shader = NoShader | Diffuse string | Fullbright string string cfg_val

record material =
  mat_shader :: shader
  mat_sample_as_light :: "cfg_val option"

record host =
  objects :: "bobject list"
  scene_objects :: "nat list"
  meshes :: "mesh list"
  materials :: "(string \<times> material) list"
  images :: "(string \<times> array_im) list"

definition upd_obj :: "nat \<Rightarrow> (bobject \<Rightarrow> bobject) \<Rightarrow> host \<Rightarrow> host" where
  "upd_obj i f h = h\<lparr>objects := (objects h)[i := f (objects h ! i)]\<rparr>"

definition upd_mesh :: "nat \<Rightarrow> (mesh \<Rightarrow> mesh) \<Rightarrow> host \<Rightarrow> host" where
  "upd_mesh i f h = h\<lparr>meshes := (meshes h)[i := f (meshes h ! i)]\<rparr>"

definition meshes_new :: "string \<Rightarrow> host \<Rightarrow> nat \<times> host" where
  "meshes_new nm h =
     (length (meshes h),
      h\<lparr>meshes := meshes h @ [\<lparr>mesh_name = nm, mesh_verts = [], mesh_edges = [],
                                 mesh_faces = [], mesh_materials = [], uv_layers = []\<rparr>]\<rparr>)"

definition objects_new :: "string \<Rightarrow> nat option \<Rightarrow> host \<Rightarrow> nat \<times> host" where
  "objects_new nm data h =
     (length (objects h),
      h\<lparr>objects := objects h @ [\<lparr>ob_name = nm, ob_data = data, ob_parent = None,
                                   shape_keys = []\<rparr>]\<rparr>)"

definition link :: "nat \<Rightarrow> host \<Rightarrow> host" where
  "link ob h = h\<lparr>scene_objects := scene_objects h @ [ob]\<rparr>"

definition from_pydata :: "vert pydata \<Rightarrow> mesh \<Rightarrow> mesh" where
  "from_pydata pd m =
     (case pd of (vs, es, fs) \<Rightarrow> m\<lparr>mesh_verts := vs, mesh_edges := es, mesh_faces := fs\<rparr>)"

section \<open>Shape-key blocks\<close>

fun set_block_verts :: "vert list \<Rightarrow> nat list \<Rightarrow> vert list \<Rightarrow> error + vert list" where
  "set_block_verts fv [] data = Inr data"
| "set_block_verts fv (old_vert_idx # rest) [] = Inr []"
| "set_block_verts fv (old_vert_idx # rest) (block_vert # data) =
     (if old_vert_idx < length fv
      then (case set_block_verts fv rest data of
              Inl e \<Rightarrow> Inl e
            | Inr data1 \<Rightarrow> Inr (fv ! old_vert_idx # data1))
      else Inl IndexError)"

definition create_block :: "nat \<Rightarrow> simple_frame \<Rightarrow> nat list \<Rightarrow> host \<Rightarrow> error + (nat \<times> host)" where
  "create_block obj simple_frame vert_map h =
     (let ob = objects h ! obj;
          basis = (case ob_data ob of None \<Rightarrow> [] | Some m \<Rightarrow> mesh_verts (meshes h ! m));
          block = length (shape_keys ob)
      in case set_block_verts (frame_verts simple_frame) vert_map basis of
           Inl e \<Rightarrow> Inl e
         | Inr data \<Rightarrow>
             Inr (block,
                  upd_obj obj (\<lambda>ob. ob\<lparr>shape_keys := shape_keys ob @
                     [\<lparr>sk_name = sf_name simple_frame, sk_data = data, sk_value = 0,
                       keyframe_points = []\<rparr>]\<rparr>) h))"

section \<open>animate\<close>

definition py_round :: "rat \<Rightarrow> int" where
  "py_round x =
     (let f = \<lfloor>x\<rfloor>; d = x - of_int f
      in if d < 1 / 2 then f else if 1 / 2 < d then f + 1 else if even f then f else f + 1)"

definition frame_no :: "int \<Rightarrow> rat \<Rightarrow> int" where
  "frame_no fps time = py_round (of_int fps * time)"

definition keyframe_insert :: "int \<Rightarrow> shape_key \<Rightarrow> shape_key" where
  "keyframe_insert f b =
     b\<lparr>keyframe_points := keyframe_points b @
          [\<lparr>kf_frame = f, kf_value = sk_value b, kf_interpolation = BEZIER\<rparr>]\<rparr>"

definition set_and_key :: "nat \<Rightarrow> rat \<Rightarrow> int \<Rightarrow> shape_key list \<Rightarrow> shape_key list" where
  "set_and_key block v f keys = keys[block := keyframe_insert f ((keys ! block)\<lparr>sk_value := v\<rparr>)]"

type_synonym blocks = "nat \<rightharpoonup> nat"

fun animate_loop ::
  "blocks \<Rightarrow> int \<Rightarrow> (rat \<times> nat) list \<Rightarrow> (nat \<times> rat) option \<Rightarrow> shape_key list
     \<Rightarrow> error + ((nat \<times> rat) option \<times> shape_key list)" where
  "animate_loop blocks fps [] prev keys = Inr (prev, keys)"
| "animate_loop blocks fps ((time, frame_num) # rest) prev keys =
     (case blocks frame_num of
        None \<Rightarrow> Inl KeyError
      | Some block \<Rightarrow>
          (let keys1 = set_and_key block 1 (frame_no fps time) keys;
               keys2 = (case prev of
                          None \<Rightarrow> keys1
                        | Some (prev_block, prev_time) \<Rightarrow>
                            set_and_key prev_block 0 (frame_no fps time)
                              (set_and_key block 0 (frame_no fps prev_time) keys1))
           in animate_loop blocks fps rest (Some (block, time)) keys2))"

definition set_linear :: "shape_key \<Rightarrow> shape_key" where
  "set_linear b =
     b\<lparr>keyframe_points := map (\<lambda>kfp. kfp\<lparr>kf_interpolation := LINEAR\<rparr>) (keyframe_points b)\<rparr>"

definition animate ::
  "alias_model \<Rightarrow> blocks \<Rightarrow> nat \<Rightarrow> (rat \<times> nat) list \<Rightarrow> int \<Rightarrow> host \<Rightarrow> error + host" where
  "animate am blocks obj frames fps h =
     (case animate_loop blocks fps frames None (shape_keys (objects h ! obj)) of
        Inl e \<Rightarrow> Inl e
      | Inr (prev, keys) \<Rightarrow>
          (case prev of
             None \<Rightarrow> Inr (upd_obj obj (\<lambda>ob. ob\<lparr>shape_keys := keys\<rparr>) h)
           | Some p \<Rightarrow> Inr (upd_obj obj (\<lambda>ob. ob\<lparr>shape_keys := map set_linear keys\<rparr>) h)))"


text \<open>Block \<open>b\<close> of a list of shape keys holds a keyframe at frame \<open>f\<close> with value \<open>v\<close>.\<close>

definition has_keyframe :: "shape_key list \<Rightarrow> nat \<Rightarrow> int \<Rightarrow> rat \<Rightarrow> bool" where
  "has_keyframe keys b f v =
     (b < length keys \<and> list_ex (\<lambda>p. kf_frame p = f \<and> kf_value p = v) (keyframe_points (keys ! b)))"


section \<open>set_uvs\<close>

text \<open>
  The host is taken to give the mesh one face per polygon passed to \<open>from_pydata\<close>, in
  order, with one loop per vertex of the face. A new UV layer holds \<open>(0, 0)\<close> for every
  loop. The program writes to the first UV layer of the mesh.
\<close>

fun set_loop_uvs :: "int \<Rightarrow> int \<Rightarrow> uv list \<Rightarrow> (rat \<times> rat) list \<Rightarrow> error + uv list" where
  "set_loop_uvs w h [] tcs = Inr []"
| "set_loop_uvs w h (bm_loop # loops) [] = Inr (bm_loop # loops)"
| "set_loop_uvs w h (bm_loop # loops) ((s, t) # tcs) =
     (if w = 0 \<or> h = 0 then Inl ZeroDivisionError
      else (case set_loop_uvs w h loops tcs of
              Inl e \<Rightarrow> Inl e
            | Inr loops1 \<Rightarrow> Inr ((s / of_int w, t / of_int h) # loops1)))"

fun set_face_uvs :: "alias_model \<Rightarrow> uv list list \<Rightarrow> nat list \<Rightarrow> error + uv list list" where
  "set_face_uvs am [] tri_set = Inr []"
| "set_face_uvs am (bm_face # faces) [] = Inr (bm_face # faces)"
| "set_face_uvs am (bm_face # faces) (tri_idx # tri_set) =
     (case set_loop_uvs (skin_width am) (skin_height am) bm_face (get_tri_tcs am tri_idx) of
        Inl e \<Rightarrow> Inl e
      | Inr face1 \<Rightarrow>
          (case set_face_uvs am faces tri_set of
             Inl e \<Rightarrow> Inl e
           | Inr faces1 \<Rightarrow> Inr (face1 # faces1)))"

definition set_uvs :: "mesh \<Rightarrow> alias_model \<Rightarrow> nat list \<Rightarrow> error + mesh" where
  "set_uvs m am tri_set =
     (let layers = uv_layers m @ [map (\<lambda>face. map (\<lambda>v. (0, 0)) face) (mesh_faces m)]
      in case set_face_uvs am (hd layers) tri_set of
           Inl e \<Rightarrow> Inl e
         | Inr uv_layer \<Rightarrow> Inr (m\<lparr>uv_layers := uv_layer # tl layers\<rparr>))"

section \<open>get_tri_set_fullbright_frac\<close>

text \<open>
  \<open>get_tri_skin\<close> returns a mask and the skin's palette indices, two arrays of one shape
  (given flattened). The two areas start as Python integers and become array scalars with the
  first triangle: dividing zero by zero raises \<open>ZeroDivisionError\<close> for an empty triangle set
  and yields the not-a-number value of the array library otherwise.
\<close>

datatype np_float = Finite rat | NaN

definition np_sum :: "nat list \<Rightarrow> nat" where
  "np_sum xs = sum_list xs"

definition mask_area :: "bool list \<Rightarrow> nat" where
  "mask_area msk = np_sum (map of_bool msk)"

definition fullbright_mask_area :: "bool list \<Rightarrow> nat list \<Rightarrow> nat" where
  "fullbright_mask_area msk skin =
     np_sum (map (\<lambda>(m, s). of_bool m * of_bool (224 \<le> s)) (zip msk skin))"

fun tri_set_areas :: "alias_model \<Rightarrow> nat list \<Rightarrow> nat \<Rightarrow> nat \<times> nat \<Rightarrow> error + nat \<times> nat" where
  "tri_set_areas am [] skin_idx acc = Inr acc"
| "tri_set_areas am (tri_idx # rest) skin_idx (skin_area, fullbright_area) =
     (case get_tri_skin am tri_idx skin_idx of
        (msk, skin) \<Rightarrow>
          if length msk \<noteq> length skin then Inl ValueError
          else tri_set_areas am rest skin_idx
                 (skin_area + mask_area msk, fullbright_area + fullbright_mask_area msk skin))"

definition get_tri_set_fullbright_frac ::
  "alias_model \<Rightarrow> nat list \<Rightarrow> nat \<Rightarrow> error + np_float" where
  "get_tri_set_fullbright_frac am tri_set skin_idx =
     (case tri_set_areas am tri_set skin_idx (0, 0) of
        Inl e \<Rightarrow> Inl e
      | Inr (skin_area, fullbright_area) \<Rightarrow>
          if skin_area = 0
          then (if tri_set = [] then Inl ZeroDivisionError else Inr NaN)
          else Inr (Finite (of_nat fullbright_area / of_nat skin_area)))"

text \<open>The palette indices of the masked texels of a triangle set, for stating the fraction.\<close>

definition masked_texels :: "alias_model \<Rightarrow> nat list \<Rightarrow> nat \<Rightarrow> nat list" where
  "masked_texels am tri_set skin_idx =
     concat (map (\<lambda>tri_idx. map snd (filter fst (zip (fst (get_tri_skin am tri_idx skin_idx))
                                                        (snd (get_tri_skin am tri_idx skin_idx)))))
                 tri_set)"

definition same_shape :: "alias_model \<Rightarrow> nat list \<Rightarrow> nat \<Rightarrow> bool" where
  "same_shape am tri_set skin_idx =
     list_all (\<lambda>tri_idx. length (fst (get_tri_skin am tri_idx skin_idx))
                        = length (snd (get_tri_skin am tri_idx skin_idx))) tri_set"

section \<open>The palette\<close>

type_synonym byte = "8 word"

fun reshape3 :: "'a list \<Rightarrow> 'a list list" where
  "reshape3 (r # g # b # rest) = [r, g, b] # reshape3 rest"
| "reshape3 xs = []"

definition load_palette :: "byte list \<Rightarrow> error + rat list list" where
  "load_palette lump =
     (if length lump = 256 * 3
      then Inr (map (map (\<lambda>b. of_nat (unat b) / 255)) (reshape3 lump))
      else Inl ValueError)"

definition add_alpha :: "rat list list \<Rightarrow> error + rat list list" where
  "add_alpha pal =
     (if length pal = 256 then Inr (map (\<lambda>row. row @ [1]) pal) else Inl ValueError)"


section \<open>add_model\<close>

type_synonym cfg = "string \<rightharpoonup> cfg_val"
type_synonym mdls_cfg = "string \<rightharpoonup> cfg"

definition get_model_config :: "string \<Rightarrow> mdls_cfg \<Rightarrow> error + cfg" where
  "get_model_config mdl_name mdls_cfg =
     (case mdls_cfg ''__default__'' of
        None \<Rightarrow> Inl KeyError
      | Some dflt \<Rightarrow>
          Inr (dflt ++ (case mdls_cfg mdl_name of None \<Rightarrow> Map.empty | Some c \<Rightarrow> c)))"

function str_nat :: "nat \<Rightarrow> string" where
  "str_nat n =
     (if n < 10 then [''0123456789'' ! n]
      else str_nat (n div 10) @ [''0123456789'' ! (n mod 10)])"
  by pat_completeness auto
termination
  by (relation "measure id") auto

declare str_nat.simps [simp del]

record BlendMdl =
  bm_am :: alias_model
  bm_blocks :: blocks
  bm_obj :: nat
  sample_as_light_mats :: "string set"

definition initial_verts :: "alias_model \<Rightarrow> error + vert list" where
  "initial_verts am =
     (case am_frames am of
        [] \<Rightarrow> Inl IndexError
      | frame0 # rest \<Rightarrow>
          (case frame0 of
             Single sf \<Rightarrow> Inr (frame_verts sf)
           | Group sfs ts \<Rightarrow>
               (case sfs of [] \<Rightarrow> Inl IndexError | sf # others \<Rightarrow> Inr (frame_verts sf))))"

fun single_blocks ::
  "nat \<Rightarrow> nat list \<Rightarrow> nat \<Rightarrow> frame list \<Rightarrow> blocks \<Rightarrow> host \<Rightarrow> error + (blocks \<times> host)" where
  "single_blocks subobj vert_map frame_num [] blocks h = Inr (blocks, h)"
| "single_blocks subobj vert_map frame_num (frame # rest) blocks h =
     (case frame of
        Group sfs ts \<Rightarrow> Inl (NonStaticFrameType (frame_type frame))
      | Single sf \<Rightarrow>
          (case create_block subobj sf vert_map h of
             Inl e \<Rightarrow> Inl e
           | Inr (block, h1) \<Rightarrow>
               single_blocks subobj vert_map (Suc frame_num) rest (blocks(frame_num \<mapsto> block)) h1))"

fun group_blocks ::
  "nat \<Rightarrow> nat list \<Rightarrow> nat \<Rightarrow> simple_frame list \<Rightarrow> blocks \<Rightarrow> host \<Rightarrow> error + (blocks \<times> host)" where
  "group_blocks subobj vert_map frame_num [] blocks h = Inr (blocks, h)"
| "group_blocks subobj vert_map frame_num (simple_frame # rest) blocks h =
     (case create_block subobj simple_frame vert_map h of
        Inl e \<Rightarrow> Inl e
      | Inr (block, h1) \<Rightarrow>
          group_blocks subobj vert_map (Suc frame_num) rest (blocks(frame_num \<mapsto> block)) h1)"

text \<open>
  The looping times of a static model: \<open>num_loops\<close> copies of the group's times, each
  shifted by a multiple of the group's last time, paired with the cycling pose numbers.
  A zero last time makes the quotient infinite or not a number, which the conversion to an
  integer refuses; a negative \<open>num_loops\<close>, a group with no poses and a times row that does
  not fit the poses are refused by the array library.
\<close>

definition static_loop_frames :: "rat \<Rightarrow> rat list \<Rightarrow> nat \<Rightarrow> error + (rat \<times> nat) list" where
  "static_loop_frames final_time group_times n =
     (if group_times = [] then Inl IndexError
      else let last_time = last group_times in
        if last_time = 0 then Inl (if final_time = 0 then ValueError else OverflowError)
        else let num_loops = \<lceil>final_time / last_time\<rceil> in
          if num_loops < 0 then Inl ValueError
          else if n = 0 then Inl IndexError
          else let src = butlast group_times in
            if length src \<noteq> n - 1 \<and> length src \<noteq> 1 then Inl ValueError
            else let row = 0 # (if length src = n - 1 then src else replicate (n - 1) (hd src));
                     times = concat (map (\<lambda>l. map (\<lambda>t. t + of_nat l * last_time) row)
                                       [0..<nat num_loops])
                 in Inr (zip times (map (\<lambda>i. i mod n) [0..<length times])))"

definition make_blocks ::
  "alias_model \<Rightarrow> (rat \<times> nat) list \<Rightarrow> rat \<Rightarrow> bool \<Rightarrow> int \<Rightarrow> nat \<Rightarrow> nat list \<Rightarrow> host
     \<Rightarrow> error + (blocks \<times> host)" where
  "make_blocks am frames final_time static fps subobj vert_map h =
     (if \<not> static then
        (case single_blocks subobj vert_map 0 (am_frames am) Map.empty h of
           Inl e \<Rightarrow> Inl e
         | Inr (blocks, h1) \<Rightarrow>
             (case animate am blocks subobj frames fps h1 of
                Inl e \<Rightarrow> Inl e
              | Inr h2 \<Rightarrow> Inr (blocks, h2)))
      else if length frames \<noteq> 1 then Inl (StaticFrameCount (length frames))
      else if \<not> snd (hd frames) < length (am_frames am) then Inl IndexError
      else
        (case am_frames am ! snd (hd frames) of
           Single sf \<Rightarrow> Inl (StaticFrameType SINGLE)
         | Group group_frames group_times \<Rightarrow>
             (case group_blocks subobj vert_map 0 group_frames Map.empty h of
                Inl e \<Rightarrow> Inl e
              | Inr (blocks, h1) \<Rightarrow>
                  (case static_loop_frames final_time group_times (length group_frames) of
                     Inl e \<Rightarrow> Inl e
                   | Inr loop_frames \<Rightarrow>
                       (case animate am blocks subobj loop_frames fps h1 of
                          Inl e \<Rightarrow> Inl e
                        | Inr h2 \<Rightarrow> Inr (blocks, h2))))))"

text \<open>
  Modelled from the spec: the material helpers (\<open>new_mat\<close>, \<open>im_from_array\<close>, the two
  \<open>setup_..._material\<close> functions) live in a module of the repository that is not among the
  sources. \<open>new_mat\<close> registers a material under the given name in the host's material
  collection, \<open>im_from_array\<close> registers an image, and the setup functions record which
  images the material shows. The texture synthesis \<open>array_ims_from_indices\<close> is a parameter.
\<close>

type_synonym texture_synthesis =
  "rat list list \<Rightarrow> nat list list \<Rightarrow> cfg_val \<Rightarrow> array_im \<times> array_im option"

definition new_material ::
  "texture_synthesis \<Rightarrow> alias_model \<Rightarrow> rat list list \<Rightarrow> cfg \<Rightarrow> nat \<Rightarrow> string \<Rightarrow> cfg_val
     \<Rightarrow> string set \<Rightarrow> host \<Rightarrow> error + (string set \<times> host)" where
  "new_material array_ims_from_indices am pal mdl_cfg skin_idx mat_name sample_as_light mats h =
     (if \<not> skin_idx < length (am_skins am) then Inl IndexError
      else case mdl_cfg ''force_fullbright'' of
        None \<Rightarrow> Inl KeyError
      | Some force_fullbright \<Rightarrow>
          (case array_ims_from_indices pal (am_skins am ! skin_idx) force_fullbright of
             (array_im, fullbright_array_im) \<Rightarrow>
               (let h1 = h\<lparr>images := images h @ [(mat_name, array_im)]\<rparr>;
                    mats1 = (if truthy sample_as_light then insert mat_name mats else mats)
                in case fullbright_array_im of
                     None \<Rightarrow>
                       Inr (mats1,
                            h1\<lparr>materials := materials h1 @
                                 [(mat_name, \<lparr>mat_shader = Diffuse mat_name,
                                              mat_sample_as_light = Some sample_as_light\<rparr>)]\<rparr>)
                   | Some fim \<Rightarrow>
                       (case mdl_cfg ''strength'' of
                          None \<Rightarrow> Inl KeyError
                        | Some strength \<Rightarrow>
                            Inr (mats1,
                                 h1\<lparr>images := images h1 @ [(mat_name @ ''_fullbright'', fim)],
                                    materials := materials h1 @
                                      [(mat_name,
                                        \<lparr>mat_shader = Fullbright mat_name
                                                        (mat_name @ ''_fullbright'') strength,
                                         mat_sample_as_light = Some sample_as_light\<rparr>)]\<rparr>)))))"

definition material_name :: "string \<Rightarrow> string \<Rightarrow> nat \<Rightarrow> nat \<Rightarrow> cfg_val \<Rightarrow> string" where
  "material_name mdl_name obj_name skin_idx tri_set_idx sample_as_light =
     (let mat_name = mdl_name @ ''_skin'' @ str_nat skin_idx
      in if truthy sample_as_light
         then mat_name @ ''_'' @ obj_name @ ''_triset'' @ str_nat tri_set_idx @ ''_fullbright''
         else mat_name)"

text \<open>One pass of the loop over the disjoint triangle sets, in the four steps of the source.\<close>

definition new_mesh_object ::
  "alias_model \<Rightarrow> string \<Rightarrow> nat \<Rightarrow> nat \<Rightarrow> nat list \<Rightarrow> host
     \<Rightarrow> error + ((nat \<times> nat \<times> nat list) \<times> host)" where
  "new_mesh_object am obj_name obj tri_set_idx tri_set h =
     (let subobj_name = obj_name @ ''_triset'' @ str_nat tri_set_idx;
          msh = fst (meshes_new subobj_name h);
          h1 = snd (meshes_new subobj_name h)
      in case initial_verts am of
           Inl e \<Rightarrow> Inl e
         | Inr verts \<Rightarrow>
        (case gather (am_tris am) tri_set of
           Inl e \<Rightarrow> Inl e
         | Inr tris \<Rightarrow>
        (case simplify_pydata verts tris of
           Inl e \<Rightarrow> Inl e
         | Inr (pydata, vert_map) \<Rightarrow>
             (let h2 = upd_mesh msh (from_pydata pydata) h1;
                  subobj = fst (objects_new subobj_name (Some msh) h2);
                  h3 = snd (objects_new subobj_name (Some msh) h2);
                  h4 = upd_obj subobj (\<lambda>ob. ob\<lparr>ob_parent := Some obj\<rparr>) h3
              in Inr ((msh, subobj, vert_map), link subobj h4)))))"

definition setup_material ::
  "texture_synthesis \<Rightarrow> alias_model \<Rightarrow> rat list list \<Rightarrow> cfg \<Rightarrow> string \<Rightarrow> string \<Rightarrow> nat
     \<Rightarrow> nat \<Rightarrow> string set \<Rightarrow> host \<Rightarrow> error + ((string \<times> string set) \<times> host)" where
  "setup_material array_ims_from_indices am pal mdl_cfg mdl_name obj_name skin_idx tri_set_idx
       mats h =
     (case mdl_cfg ''sample_as_light'' of
        None \<Rightarrow> Inl KeyError
      | Some sample_as_light \<Rightarrow>
          (let mat_name = material_name mdl_name obj_name skin_idx tri_set_idx sample_as_light
           in case (if mat_name \<notin> fst ` set (materials h)
                    then new_material array_ims_from_indices am pal mdl_cfg skin_idx mat_name
                           sample_as_light mats h
                    else Inr (mats, h)) of
                Inl e \<Rightarrow> Inl e
              | Inr (mats1, h1) \<Rightarrow>
                  (case map_of (materials h1) mat_name of
                     None \<Rightarrow> Inl KeyError
                   | Some mat \<Rightarrow> Inr ((mat_name, mats1), h1))))"

definition apply_material :: "alias_model \<Rightarrow> nat \<Rightarrow> string \<Rightarrow> nat list \<Rightarrow> host \<Rightarrow> error + host" where
  "apply_material am msh mat tri_set h =
     (let h1 = upd_mesh msh (\<lambda>m. m\<lparr>mesh_materials := mesh_materials m @ [mat]\<rparr>) h
      in case set_uvs (meshes h1 ! msh) am tri_set of
           Inl e \<Rightarrow> Inl e
         | Inr m1 \<Rightarrow> Inr (upd_mesh msh (\<lambda>m. m1) h1))"

definition add_tri_set ::
  "texture_synthesis \<Rightarrow> alias_model \<Rightarrow> rat list list \<Rightarrow> cfg \<Rightarrow> string \<Rightarrow> string
     \<Rightarrow> (rat \<times> nat) list \<Rightarrow> nat \<Rightarrow> rat \<Rightarrow> bool \<Rightarrow> int \<Rightarrow> nat \<Rightarrow> string set \<Rightarrow> nat \<Rightarrow> nat list
     \<Rightarrow> host \<Rightarrow> error + ((blocks \<times> string set) \<times> host)" where
  "add_tri_set array_ims_from_indices am pal mdl_cfg mdl_name obj_name frames skin_idx
       final_time static fps obj mats tri_set_idx tri_set h =
     (case new_mesh_object am obj_name obj tri_set_idx tri_set h of
        Inl e \<Rightarrow> Inl e
      | Inr ((msh, subobj, vert_map), h1) \<Rightarrow>
     (case make_blocks am frames final_time static fps subobj vert_map h1 of
        Inl e \<Rightarrow> Inl e
      | Inr (blocks, h2) \<Rightarrow>
     (case setup_material array_ims_from_indices am pal mdl_cfg mdl_name obj_name skin_idx
             tri_set_idx mats h2 of
        Inl e \<Rightarrow> Inl e
      | Inr ((mat, mats1), h3) \<Rightarrow>
     (case apply_material am msh mat tri_set h3 of
        Inl e \<Rightarrow> Inl e
      | Inr h4 \<Rightarrow> Inr ((blocks, mats1), h4)))))"

fun add_tri_sets ::
  "texture_synthesis \<Rightarrow> alias_model \<Rightarrow> rat list list \<Rightarrow> cfg \<Rightarrow> string \<Rightarrow> string
     \<Rightarrow> (rat \<times> nat) list \<Rightarrow> nat \<Rightarrow> rat \<Rightarrow> bool \<Rightarrow> int \<Rightarrow> nat \<Rightarrow> nat \<Rightarrow> nat list list
     \<Rightarrow> blocks option \<times> string set \<Rightarrow> host \<Rightarrow> error + ((blocks option \<times> string set) \<times> host)" where
  "add_tri_sets aifi am pal mdl_cfg mdl_name obj_name frames skin_idx final_time static fps obj
       tri_set_idx [] acc h = Inr (acc, h)"
| "add_tri_sets aifi am pal mdl_cfg mdl_name obj_name frames skin_idx final_time static fps obj
       tri_set_idx (tri_set # rest) acc h =
     (case add_tri_set aifi am pal mdl_cfg mdl_name obj_name frames skin_idx final_time static
             fps obj (snd acc) tri_set_idx tri_set h of
        Inl e \<Rightarrow> Inl e
      | Inr ((blocks, mats1), h1) \<Rightarrow>
          add_tri_sets aifi am pal mdl_cfg mdl_name obj_name frames skin_idx final_time static
            fps obj (Suc tri_set_idx) rest (Some blocks, mats1) h1)"

definition add_model ::
  "texture_synthesis \<Rightarrow> alias_model \<Rightarrow> rat list list \<Rightarrow> string \<Rightarrow> string \<Rightarrow> (rat \<times> nat) list
     \<Rightarrow> nat \<Rightarrow> rat \<Rightarrow> mdls_cfg \<Rightarrow> bool \<Rightarrow> int \<Rightarrow> host \<Rightarrow> error + (BlendMdl \<times> host)" where
  "add_model array_ims_from_indices am pal mdl_name obj_name frames skin_idx final_time mdls_cfg
       static fps h =
     (case get_model_config mdl_name mdls_cfg of
        Inl e \<Rightarrow> Inl e
      | Inr mdl_cfg \<Rightarrow>
     (case add_alpha pal of
        Inl e \<Rightarrow> Inl e
      | Inr pal1 \<Rightarrow>
     (let obj = fst (objects_new obj_name None h);
          h1 = link obj (snd (objects_new obj_name None h))
      in case add_tri_sets array_ims_from_indices am pal1 mdl_cfg mdl_name obj_name frames
                skin_idx final_time static fps obj 0 (disjoint_tri_sets am) (None, {}) h1 of
           Inl e \<Rightarrow> Inl e
         | Inr ((blocks_opt, mats), h2) \<Rightarrow>
             (case blocks_opt of
                None \<Rightarrow> Inl UnboundLocalError
              | Some blocks \<Rightarrow>
                  Inr (\<lparr>bm_am = am, bm_blocks = blocks, bm_obj = obj,
                        sample_as_light_mats = mats\<rparr>, h2)))))"

section \<open>load_model\<close>

text \<open>
  The pak filesystem and the model parser belong to modules that are not among the sources:
  the filesystem is a map from file names to their bytes, the parser a parameter.

  A call binds its positional arguments to the parameters of \<open>add_model\<close> in order:
  \<open>am, pal, mdl_name, obj_name, frames, skin_idx, final_time, mdls_cfg, static=False, fps=30\<close>.
  An argument the caller does not supply is \<open>None\<close> below; a missing argument for a
  parameter without a default raises \<open>TypeError\<close> before the body runs.
\<close>

definition call_add_model ::
  "texture_synthesis \<Rightarrow> alias_model \<Rightarrow> rat list list \<Rightarrow> string \<Rightarrow> string \<Rightarrow> (rat \<times> nat) list
     \<Rightarrow> nat \<Rightarrow> rat option \<Rightarrow> mdls_cfg option \<Rightarrow> bool option \<Rightarrow> int option \<Rightarrow> host
     \<Rightarrow> error + (BlendMdl \<times> host)" where
  "call_add_model array_ims_from_indices am pal mdl_name obj_name frames skin_idx final_time
       mdls_cfg static fps h =
     (case final_time of
        None \<Rightarrow> Inl TypeError
      | Some ft \<Rightarrow>
          (case mdls_cfg of
             None \<Rightarrow> Inl TypeError
           | Some cfgs \<Rightarrow>
               add_model array_ims_from_indices am pal mdl_name obj_name frames skin_idx ft cfgs
                 (case static of None \<Rightarrow> False | Some b \<Rightarrow> b)
                 (case fps of None \<Rightarrow> 30 | Some f \<Rightarrow> f) h))"

type_synonym filesystem = "string \<rightharpoonup> byte list"

definition load_model ::
  "texture_synthesis \<Rightarrow> (byte list \<Rightarrow> error + alias_model) \<Rightarrow> filesystem \<Rightarrow> string \<Rightarrow> string
     \<Rightarrow> (rat \<times> nat) list \<Rightarrow> nat \<Rightarrow> int \<Rightarrow> host \<Rightarrow> error + host" where
  "load_model array_ims_from_indices alias_model_of fs mdl_name obj_name frames skin_idx fps h =
     (case fs (''progs/'' @ mdl_name @ ''.mdl'') of
        None \<Rightarrow> Inl FileNotFoundError
      | Some data \<Rightarrow>
          (case alias_model_of data of
             Inl e \<Rightarrow> Inl e
           | Inr am \<Rightarrow>
               (case fs ''gfx/palette.lmp'' of
                  None \<Rightarrow> Inl KeyError
                | Some lump \<Rightarrow>
                    (case load_palette lump of
                       Inl e \<Rightarrow> Inl e
                     | Inr pal \<Rightarrow>
                         (case call_add_model array_ims_from_indices am pal mdl_name obj_name
                                 frames skin_idx (Some (of_int fps)) None None None h of
                            Inl e \<Rightarrow> Inl e
                          | Inr (r, h1) \<Rightarrow> Inr h1)))))"

section \<open>What one pass of the loop builds\<close>

text \<open>
  The values the properties below speak about: the name of the sub-object and mesh of a
  triangle set, the block a pose gives under a vertex map, and the vertex map of a triangle
  set (the vertex indices of its triangles in the order of first use).
\<close>

definition subobj_name :: "string \<Rightarrow> nat \<Rightarrow> string" where
  "subobj_name obj_name tri_set_idx = obj_name @ ''_triset'' @ str_nat tri_set_idx"

definition block_of :: "nat list \<Rightarrow> simple_frame \<Rightarrow> shape_key" where
  "block_of vert_map sf =
     \<lparr>sk_name = sf_name sf, sk_data = map ((!) (frame_verts sf)) vert_map, sk_value = 0,
      keyframe_points = []\<rparr>"

definition tri_set_tris :: "alias_model \<Rightarrow> nat list \<Rightarrow> nat list list" where
  "tri_set_tris am tri_set = map ((!) (am_tris am)) tri_set"

definition tri_set_vert_map :: "alias_model \<Rightarrow> nat list \<Rightarrow> nat list" where
  "tri_set_vert_map am tri_set = first_use_order (concat (tri_set_tris am tri_set))"

text \<open>The host after the mesh and the sub-object of a triangle set have been created.\<close>

definition nmo_host ::
  "alias_model \<Rightarrow> string \<Rightarrow> nat \<Rightarrow> nat \<Rightarrow> nat list \<Rightarrow> nat list list \<Rightarrow> vert list \<Rightarrow> host \<Rightarrow> host" where
  "nmo_host am obj_name obj i vm nts verts h =
     h\<lparr>meshes := meshes h @
          [\<lparr>mesh_name = subobj_name obj_name i, mesh_verts = map ((!) verts) vm,
            mesh_edges = [], mesh_faces = nts, mesh_materials = [], uv_layers = []\<rparr>],
       objects := objects h @
          [\<lparr>ob_name = subobj_name obj_name i, ob_data = Some (length (meshes h)),
            ob_parent = Some obj, shape_keys = []\<rparr>],
       scene_objects := scene_objects h @ [length (objects h)]\<rparr>"

text \<open>
  The sub-object \<open>obj\<close> of the host refers to a mesh with as many vertices as \<open>vm\<close>;
  the host with the shape keys of \<open>obj\<close> extended, and replaced.
\<close>

definition fits :: "host \<Rightarrow> nat \<Rightarrow> nat list \<Rightarrow> bool" where
  "fits h obj vm \<longleftrightarrow>
     obj < length (objects h)
     \<and> (\<exists>m. ob_data (objects h ! obj) = Some m
            \<and> length (mesh_verts (meshes h ! m)) = length vm)"

definition set_keys :: "nat \<Rightarrow> shape_key list \<Rightarrow> host \<Rightarrow> host" where
  "set_keys obj ks h = h\<lparr>objects := (objects h)[obj := (objects h ! obj)\<lparr>shape_keys := ks\<rparr>]\<rparr>"

definition add_keys :: "nat \<Rightarrow> shape_key list \<Rightarrow> host \<Rightarrow> host" where
  "add_keys obj ks h =
     h\<lparr>objects := (objects h)[obj := (objects h ! obj)\<lparr>shape_keys :=
                                      shape_keys (objects h ! obj) @ ks\<rparr>]\<rparr>"

text \<open>
  The shape keys of a sub-object of a non-static model: one block per frame of the model,
  named after the frame and holding the frame's vertices under the vertex map; a block that
  no entry of \<open>frames\<close> names has no keyframe, and the block of every entry has a keyframe
  of value 1 at the entry's time.
\<close>

definition nonstatic_keys ::
  "alias_model \<Rightarrow> (rat \<times> nat) list \<Rightarrow> int \<Rightarrow> nat list \<Rightarrow> shape_key list \<Rightarrow> bool" where
  "nonstatic_keys am frames fps vm keys \<longleftrightarrow>
     length keys = length (am_frames am)
     \<and> (\<forall>k<length (am_frames am). \<exists>sf. am_frames am ! k = Single sf
           \<and> sk_name (keys ! k) = sf_name sf
           \<and> sk_data (keys ! k) = map ((!) (frame_verts sf)) vm
           \<and> (k \<notin> snd ` set frames \<longrightarrow> keyframe_points (keys ! k) = []))
     \<and> (\<forall>e\<in>set frames. has_keyframe keys (snd e) (frame_no fps (fst e)) 1)"

text \<open>
  The exceptions of the precondition checks, each with the condition the check tests, and
  the exceptions of the operations around them.
\<close>

definition precondition_error :: "alias_model \<Rightarrow> (rat \<times> nat) list \<Rightarrow> bool \<Rightarrow> error \<Rightarrow> bool" where
  "precondition_error am frames static e \<longleftrightarrow>
     (e = NonStaticFrameType GROUP \<and> \<not> static
        \<and> list_ex (\<lambda>f. frame_type f \<noteq> SINGLE) (am_frames am))
     \<or> (e = StaticFrameCount (length frames) \<and> static \<and> length frames \<noteq> 1)
     \<or> (e = StaticFrameType SINGLE \<and> static \<and> length frames = 1
          \<and> snd (hd frames) < length (am_frames am)
          \<and> frame_type (am_frames am ! snd (hd frames)) \<noteq> GROUP)"

definition other_error :: "error \<Rightarrow> bool" where
  "other_error e \<longleftrightarrow>
     e = KeyError \<or> e = IndexError \<or> e = ValueError \<or> e = ZeroDivisionError
     \<or> e = OverflowError \<or> e = UnboundLocalError"

text \<open>
  The sub-object and the mesh a pass of the loop leaves in the host for triangle set \<open>ts\<close>
  with index \<open>i\<close>: their names, the parent, the mesh the object shows, the material, and
  the geometry (every face of the mesh names the vertices of its own triangle).
\<close>

definition built_object :: "string \<Rightarrow> nat \<Rightarrow> nat \<Rightarrow> nat \<Rightarrow> bobject \<Rightarrow> bool" where
  "built_object obj_name obj i msh sub \<longleftrightarrow>
     ob_name sub = subobj_name obj_name i \<and> ob_data sub = Some msh \<and> ob_parent sub = Some obj"

definition built_mesh :: "alias_model \<Rightarrow> string \<Rightarrow> nat \<Rightarrow> nat list \<Rightarrow> string \<Rightarrow> mesh \<Rightarrow> bool" where
  "built_mesh am obj_name i ts mat m \<longleftrightarrow>
     mesh_name m = subobj_name obj_name i \<and> mesh_materials m = [mat]
     \<and> length (mesh_faces m) = length ts
     \<and> (\<exists>verts. initial_verts am = Inr verts
           \<and> mesh_verts m = map ((!) verts) (tri_set_vert_map am ts)
           \<and> (\<forall>f<length ts. ts ! f < length (am_tris am)
                 \<and> length (mesh_faces m ! f) = length (am_tris am ! (ts ! f))
                 \<and> (\<forall>j<length (am_tris am ! (ts ! f)).
                        mesh_faces m ! f ! j < length (mesh_verts m)
                      \<and> mesh_verts m ! (mesh_faces m ! f ! j)
                          = verts ! (am_tris am ! (ts ! f) ! j))))"

definition built_tri_set ::
  "alias_model \<Rightarrow> string \<Rightarrow> (rat \<times> nat) list \<Rightarrow> int \<Rightarrow> bool \<Rightarrow> nat \<Rightarrow> string \<Rightarrow> nat \<Rightarrow> nat list
     \<Rightarrow> nat \<Rightarrow> bobject \<Rightarrow> mesh \<Rightarrow> bool" where
  "built_tri_set am obj_name frames fps static obj mat msh ts i sub m \<longleftrightarrow>
     built_object obj_name obj i msh sub \<and> built_mesh am obj_name i ts mat m
     \<and> (\<not> static \<longrightarrow> nonstatic_keys am frames fps (tri_set_vert_map am ts) (shape_keys sub))"

definition frame_blocks :: "alias_model \<Rightarrow> blocks" where
  "frame_blocks am = (\<lambda>k. if k < length (am_frames am) then Some k else None)"

section \<open>Concrete inputs\<close>

definition am_frac :: alias_model where
  "am_frac = \<lparr>am_frames = [], am_tris = [], disjoint_tri_sets = [], am_skins = [],
      skin_width = 2, skin_height = 2, get_tri_tcs = (\<lambda>t. []),
      get_tri_skin = (\<lambda>t s. if t = 0 then ([True, True, False, True], [230, 3, 255, 224])
                            else ([False, False], [0, 240]))\<rparr>"

definition h0 :: host where
  "h0 = \<lparr>objects = [], scene_objects = [], meshes = [], materials = [], images = []\<rparr>"

definition am0 :: alias_model where
  "am0 = \<lparr>am_frames =
            [Single \<lparr>sf_name = ''stand1'',
                     frame_verts = [[0, 0, 0], [1, 0, 0], [0, 1, 0], [0, 0, 1]]\<rparr>,
             Single \<lparr>sf_name = ''stand2'',
                     frame_verts = [[0, 0, 1], [1, 0, 1], [0, 1, 1], [0, 0, 2]]\<rparr>],
          am_tris = [[0, 1, 2], [1, 2, 3]],
          disjoint_tri_sets = [[0], [1]],
          am_skins = [[[0, 1], [2, 3]]],
          skin_width = 2, skin_height = 2,
          get_tri_tcs = (\<lambda>t. [(0, 0), (1, 0), (0, 1)]),
          get_tri_skin = (\<lambda>t s. ([True, False], [225, 3]))\<rparr>"

definition mesh0 :: mesh where
  "mesh0 = \<lparr>mesh_name = ''p1_triset1'', mesh_verts = [[1, 0, 0], [0, 1, 0], [0, 0, 1]],
            mesh_edges = [], mesh_faces = [[0, 1, 2]], mesh_materials = [''player_skin0''],
            uv_layers = []\<rparr>"

definition cfg0 :: mdls_cfg where
  "cfg0 = [''__default__'' \<mapsto> [''sample_as_light'' \<mapsto> CBool False,
                                  ''force_fullbright'' \<mapsto> CBool False,
                                  ''strength'' \<mapsto> CNum 1]]"

definition aifi0 :: texture_synthesis where
  "aifi0 = (\<lambda>pal skin ff. ([], None))"




definition fs0 :: filesystem where
  "fs0 = [''progs/player.mdl'' \<mapsto> [], ''gfx/palette.lmp'' \<mapsto> replicate 768 0]"


section \<open>Properties of simplify_pydata\<close>

lemma add_first_simps:
  "x \<in> set vm \<Longrightarrow> add_first x vm = vm"
  "x \<notin> set vm \<Longrightarrow> add_first x vm = vm @ [x]"
  by (simp_all add: add_first_def)

lemma list_index_mem:
  "x \<in> set xs \<Longrightarrow> \<exists>k. list_index xs x = Inr k \<and> k < length xs \<and> xs ! k = x"
  by (induction xs) auto

lemma remdups_snoc: "remdups (ys @ [x]) = filter (\<lambda>y. y \<noteq> x) (remdups ys) @ [x]"
  by (induction ys) auto

lemma first_use_order_Cons:
  "first_use_order (x # xs) = x # filter (\<lambda>y. y \<noteq> x) (first_use_order xs)"
  by (simp add: first_use_order_def remdups_snoc rev_filter)

lemma fold_add_first:
  "fold add_first xs vm = vm @ filter (\<lambda>v. v \<notin> set vm) (first_use_order xs)"
proof (induction xs arbitrary: vm)
  case Nil
  show ?case by (simp add: first_use_order_def)
next
  case (Cons x xs)
  show ?case
  proof (cases "x \<in> set vm")
    case True
    then have "\<And>y. y \<notin> set vm \<Longrightarrow> y \<noteq> x" by auto
    then have "filter (\<lambda>v. v \<notin> set vm) (filter (\<lambda>y. y \<noteq> x) (first_use_order xs))
             = filter (\<lambda>v. v \<notin> set vm) (first_use_order xs)"
      by (auto intro: filter_cong)
    with True show ?thesis
      by (simp add: Cons.IH add_first_simps first_use_order_Cons)
  next
    case False
    then show ?thesis
      by (simp add: Cons.IH add_first_simps first_use_order_Cons conj_commute)
  qed
qed

lemma simplify_tri_props:
  "\<exists>ext new_tri. simplify_tri vm tri = Inr (vm @ ext, new_tri)
      \<and> length new_tri = length tri
      \<and> (\<forall>j<length tri. new_tri ! j < length (vm @ ext) \<and> (vm @ ext) ! (new_tri ! j) = tri ! j)
      \<and> vm @ ext = fold add_first tri vm"
proof (induction tri arbitrary: vm)
  case Nil
  show ?case by simp
next
  case (Cons v vs)
  define vm1 where "vm1 = add_first v vm"
  have "v \<in> set vm1" by (simp add: vm1_def add_first_def)
  from list_index_mem[OF this] obtain k where
    k: "list_index vm1 v = Inr k" "k < length vm1" "vm1 ! k = v" by blast
  from Cons.IH[of vm1] obtain ext nt where r: "simplify_tri vm1 vs = Inr (vm1 @ ext, nt)"
    "length nt = length vs"
    "\<forall>j<length vs. nt ! j < length (vm1 @ ext) \<and> (vm1 @ ext) ! (nt ! j) = vs ! j"
    "vm1 @ ext = fold add_first vs vm1" by blast
  obtain e0 where e0: "vm1 = vm @ e0" by (cases "v \<in> set vm") (auto simp: vm1_def add_first_def)
  have run: "simplify_tri vm (v # vs) = Inr (vm @ (e0 @ ext), k # nt)"
    using k(1) r(1) e0 by (simp add: vm1_def add_first_def)
  have idx: "\<forall>j<length (v # vs). (k # nt) ! j < length (vm @ (e0 @ ext))
               \<and> (vm @ (e0 @ ext)) ! ((k # nt) ! j) = (v # vs) ! j"
  proof (intro allI impI)
    fix j assume "j < length (v # vs)"
    show "(k # nt) ! j < length (vm @ (e0 @ ext))
               \<and> (vm @ (e0 @ ext)) ! ((k # nt) ! j) = (v # vs) ! j"
    proof (cases j)
      case 0
      have "(vm1 @ ext) ! k = vm1 ! k"
        using k(2) by (simp only: nth_append if_True)
      with 0 k e0 show ?thesis by simp
    next
      case (Suc j')
      with \<open>j < length (v # vs)\<close> r(3) e0 show ?thesis by simp
    qed
  qed
  have "vm @ (e0 @ ext) = fold add_first (v # vs) vm"
    using r(4) e0 by (simp add: vm1_def)
  with run idx r(2) show ?case by (intro exI[of _ "e0 @ ext"] exI[of _ "k # nt"]) simp
qed

lemma simplify_tris_props:
  "\<exists>ext new_tris. simplify_tris vm tris = Inr (vm @ ext, new_tris)
      \<and> length new_tris = length tris
      \<and> (\<forall>i<length tris. length (new_tris ! i) = length (tris ! i)
            \<and> (\<forall>j<length (tris ! i). new_tris ! i ! j < length (vm @ ext)
                   \<and> (vm @ ext) ! (new_tris ! i ! j) = tris ! i ! j))
      \<and> vm @ ext = fold add_first (concat tris) vm"
proof (induction tris arbitrary: vm)
  case Nil
  show ?case by simp
next
  case (Cons tri rest)
  from simplify_tri_props[of vm tri] obtain e0 nt where
    t: "simplify_tri vm tri = Inr (vm @ e0, nt)" "length nt = length tri"
       "\<forall>j<length tri. nt ! j < length (vm @ e0) \<and> (vm @ e0) ! (nt ! j) = tri ! j"
       "vm @ e0 = fold add_first tri vm" by blast
  from Cons.IH[of "vm @ e0"] obtain ext nts where
    r: "simplify_tris (vm @ e0) rest = Inr ((vm @ e0) @ ext, nts)" "length nts = length rest"
       "\<forall>i<length rest. length (nts ! i) = length (rest ! i)
            \<and> (\<forall>j<length (rest ! i). nts ! i ! j < length ((vm @ e0) @ ext)
                   \<and> ((vm @ e0) @ ext) ! (nts ! i ! j) = rest ! i ! j)"
       "(vm @ e0) @ ext = fold add_first (concat rest) (vm @ e0)" by blast
  have run: "simplify_tris vm (tri # rest) = Inr (vm @ (e0 @ ext), nt # nts)"
    using t(1) r(1) by simp
  have idx: "\<forall>i<length (tri # rest). length ((nt # nts) ! i) = length ((tri # rest) ! i)
            \<and> (\<forall>j<length ((tri # rest) ! i). (nt # nts) ! i ! j < length (vm @ (e0 @ ext))
                   \<and> (vm @ (e0 @ ext)) ! ((nt # nts) ! i ! j) = (tri # rest) ! i ! j)"
  proof (intro allI impI)
    fix i assume i: "i < length (tri # rest)"
    show "length ((nt # nts) ! i) = length ((tri # rest) ! i)
            \<and> (\<forall>j<length ((tri # rest) ! i). (nt # nts) ! i ! j < length (vm @ (e0 @ ext))
                   \<and> (vm @ (e0 @ ext)) ! ((nt # nts) ! i ! j) = (tri # rest) ! i ! j)"
    proof (cases i)
      case 0
      have "\<forall>j<length tri. nt ! j < length (vm @ (e0 @ ext))
                   \<and> (vm @ (e0 @ ext)) ! (nt ! j) = tri ! j"
      proof (intro allI impI)
        fix j assume "j < length tri"
        with t(3) have a: "nt ! j < length (vm @ e0)" "(vm @ e0) ! (nt ! j) = tri ! j" by auto
        have "((vm @ e0) @ ext) ! (nt ! j) = (vm @ e0) ! (nt ! j)"
          using a(1) by (simp only: nth_append if_True)
        with a show "nt ! j < length (vm @ (e0 @ ext)) \<and> (vm @ (e0 @ ext)) ! (nt ! j) = tri ! j"
          by simp
      qed
      with 0 t(2) show ?thesis by simp
    next
      case (Suc i')
      with i r(3) show ?thesis by simp
    qed
  qed
  have "fold add_first (concat (tri # rest)) vm
          = fold add_first (concat rest) (fold add_first tri vm)" by simp
  also have "\<dots> = fold add_first (concat rest) (vm @ e0)" by (simp only: t(4))
  also have "\<dots> = (vm @ e0) @ ext" by (simp only: r(4))
  finally have "vm @ (e0 @ ext) = fold add_first (concat (tri # rest)) vm" by simp
  with run idx r(2) show ?case by (intro exI[of _ "e0 @ ext"] exI[of _ "nt # nts"]) simp
qed

lemma gather_ok:
  "\<forall>i\<in>set is. i < length verts \<Longrightarrow> gather verts is = Inr (map ((!) verts) is)"
  by (induction "is") auto

lemma distinct_first_use_order: "distinct (first_use_order xs)" "set (first_use_order xs) = set xs"
  by (simp_all add: first_use_order_def)

text \<open>
  Claim C8. \<open>_simplify_pydata\<close> keeps the geometry while it removes unused and repeated
  vertices: when every index of every triangle lies within \<open>verts\<close>, the call returns
  (no exception), the new triangle list has the length and the arities of the old one, every
  new index lies within \<open>vert_map\<close> and names the same vertex as the old index did,
  and \<open>vert_map\<close> lists each referenced old index exactly once, in the order of first use.
\<close>

theorem simplify_pydata_preserves_geometry:
  assumes "\<forall>tri\<in>set tris. \<forall>v\<in>set tri. v < length verts"
  shows "\<exists>new_verts new_tris vert_map.
           simplify_pydata verts tris = Inr ((new_verts, [], new_tris), vert_map)
         \<and> length new_tris = length tris
         \<and> (\<forall>i<length tris. length (new_tris ! i) = length (tris ! i)
             \<and> (\<forall>j<length (tris ! i). new_tris ! i ! j < length vert_map
                   \<and> new_verts ! (new_tris ! i ! j) = verts ! (tris ! i ! j)))
         \<and> vert_map = first_use_order (concat tris)
         \<and> distinct vert_map \<and> set vert_map = set (concat tris)
         \<and> length new_verts = length vert_map"
proof -
  from simplify_tris_props[of "[]" tris] obtain vm nts where
    r: "simplify_tris [] tris = Inr (vm, nts)" "length nts = length tris"
       "\<forall>i<length tris. length (nts ! i) = length (tris ! i)
            \<and> (\<forall>j<length (tris ! i). nts ! i ! j < length vm
                   \<and> vm ! (nts ! i ! j) = tris ! i ! j)"
       "vm = fold add_first (concat tris) []" by auto
  have vm: "vm = first_use_order (concat tris)"
    using r(4) by (simp add: fold_add_first)
  then have "set vm = set (concat tris)" and dist: "distinct vm"
    by (simp_all add: distinct_first_use_order)
  with assms have "\<forall>i\<in>set vm. i < length verts" by auto
  then have g: "gather verts vm = Inr (map ((!) verts) vm)" by (rule gather_ok)
  have run: "simplify_pydata verts tris = Inr ((map ((!) verts) vm, [], nts), vm)"
    using r(1) g by (simp add: simplify_pydata_def)
  have geo: "\<forall>i<length tris. length (nts ! i) = length (tris ! i)
             \<and> (\<forall>j<length (tris ! i). nts ! i ! j < length vm
                   \<and> map ((!) verts) vm ! (nts ! i ! j) = verts ! (tris ! i ! j))"
  proof (intro allI impI conjI)
    fix i j assume ij: "i < length tris" "j < length (tris ! i)"
    with r(3) have a: "nts ! i ! j < length vm" "vm ! (nts ! i ! j) = tris ! i ! j" by auto
    show "nts ! i ! j < length vm" by (rule a(1))
    show "map ((!) verts) vm ! (nts ! i ! j) = verts ! (tris ! i ! j)"
      using a by (simp only: nth_map)
  next
    fix i assume "i < length tris"
    with r(3) show "length (nts ! i) = length (tris ! i)" by simp
  qed
  have len: "length (map ((!) verts) vm) = length vm" by simp
  from run r(2) geo vm dist \<open>set vm = set (concat tris)\<close> len
  show ?thesis by blast
qed

theorem simplify_pydata_preserves_geometry_witness:
  "simplify_pydata [10::int, 11, 12, 13, 14] [[4, 2, 4], [2, 0, 3]]
     = Inr (([14, 12, 10, 13], [], [[0, 1, 0], [1, 2, 3]]), [4, 2, 0, 3])
   \<and> first_use_order (concat [[4, 2, 4], [2, 0, 3::nat]]) = [4, 2, 0, 3]"
  using simplify_pydata_preserves_geometry[of "[[4, 2, 4], [2, 0, 3]]" "[10::int, 11, 12, 13, 14]"]
  by (simp add: simplify_pydata_def first_use_order_def)

section \<open>Properties of get_tri_set_fullbright_frac\<close>

lemma mask_area_count:
  "length msk = length skin \<Longrightarrow>
     mask_area msk = length (map snd (filter fst (zip msk skin)))"
  unfolding mask_area_def np_sum_def
proof (induction msk arbitrary: skin)
  case Nil
  show ?case by simp
next
  case (Cons m ms)
  then obtain s ss where sk: "skin = s # ss" "length ms = length ss" by (cases skin) auto
  with Cons.IH[of ss] show ?case by simp
qed

lemma fullbright_mask_area_count:
  "fullbright_mask_area msk skin
     = length (filter (\<lambda>s. 224 \<le> s) (map snd (filter fst (zip msk skin))))"
  unfolding fullbright_mask_area_def np_sum_def
proof (induction msk arbitrary: skin)
  case Nil
  show ?case by simp
next
  case (Cons m ms)
  show ?case
  proof (cases skin)
    case Nil
    then show ?thesis by simp
  next
    case (Cons s ss)
    with Cons.IH[of ss] show ?thesis by simp
  qed
qed

lemma tri_set_areas_sums:
  "same_shape am tri_set skin_idx \<Longrightarrow>
   tri_set_areas am tri_set skin_idx (a, f)
     = Inr (a + length (masked_texels am tri_set skin_idx),
            f + length (filter (\<lambda>s. 224 \<le> s) (masked_texels am tri_set skin_idx)))"
proof (induction tri_set arbitrary: a f)
  case Nil
  show ?case by (simp add: masked_texels_def)
next
  case (Cons t ts)
  obtain msk skin where g: "get_tri_skin am t skin_idx = (msk, skin)"
    by (cases "get_tri_skin am t skin_idx")
  from Cons.prems g have len: "length msk = length skin" and rest: "same_shape am ts skin_idx"
    by (simp_all add: same_shape_def)
  have hd_part: "masked_texels am (t # ts) skin_idx
      = map snd (filter fst (zip msk skin)) @ masked_texels am ts skin_idx"
    using g by (simp add: masked_texels_def)
  show ?case
    using g len Cons.IH[OF rest] mask_area_count[OF len] fullbright_mask_area_count[of msk skin]
    by (simp add: hd_part)
qed

text \<open>
  Claim C9. \<open>_get_tri_set_fullbright_frac\<close> divides by the total mask area without a
  guard. When the summed mask over the triangle set is positive, the division is defined and
  the result, the fraction of the masked texels whose palette index is at least 224, lies
  between 0 and 1. When the mask is zero everywhere, zero is divided by zero: for an empty
  triangle set the two areas are still Python integers and \<open>ZeroDivisionError\<close> is raised,
  otherwise the array scalars give not-a-number.
\<close>

theorem fullbright_frac_division:
  assumes "same_shape am tri_set skin_idx"
  shows "(0 < length (masked_texels am tri_set skin_idx) \<longrightarrow>
            get_tri_set_fullbright_frac am tri_set skin_idx
              = Inr (Finite (of_nat (length (filter (\<lambda>s. 224 \<le> s)
                                               (masked_texels am tri_set skin_idx)))
                             / of_nat (length (masked_texels am tri_set skin_idx))))
          \<and> (0::rat) \<le> of_nat (length (filter (\<lambda>s. 224 \<le> s)
                                               (masked_texels am tri_set skin_idx)))
                             / of_nat (length (masked_texels am tri_set skin_idx))
          \<and> of_nat (length (filter (\<lambda>s. 224 \<le> s) (masked_texels am tri_set skin_idx)))
                / of_nat (length (masked_texels am tri_set skin_idx)) \<le> (1::rat))
       \<and> (length (masked_texels am tri_set skin_idx) = 0 \<longrightarrow>
            get_tri_set_fullbright_frac am tri_set skin_idx
              = (if tri_set = [] then Inl ZeroDivisionError else Inr NaN))
       \<and> get_tri_set_fullbright_frac am [] skin_idx = Inl ZeroDivisionError"
proof -
  let ?n = "length (masked_texels am tri_set skin_idx)"
  let ?f = "length (filter (\<lambda>s. 224 \<le> s) (masked_texels am tri_set skin_idx))"
  have run: "tri_set_areas am tri_set skin_idx (0, 0) = Inr (?n, ?f)"
    using tri_set_areas_sums[OF assms, of 0 0] by simp
  have le: "?f \<le> ?n" by (rule length_filter_le)
  have frac: "0 < ?n \<Longrightarrow> (of_nat ?f / of_nat ?n :: rat) \<le> 1"
    using le by simp
  have empty: "get_tri_set_fullbright_frac am [] skin_idx = Inl ZeroDivisionError"
    by (simp add: get_tri_set_fullbright_frac_def)
  show ?thesis
    using run frac empty by (simp add: get_tri_set_fullbright_frac_def)
qed

theorem fullbright_frac_division_witness:
  "same_shape am_frac [0] 0
   \<and> get_tri_set_fullbright_frac am_frac [0] 0 = Inr (Finite (2 / 3))
   \<and> same_shape am_frac [1] 0
   \<and> get_tri_set_fullbright_frac am_frac [1] 0 = Inr NaN
   \<and> get_tri_set_fullbright_frac am_frac [] 0 = Inl ZeroDivisionError"
  using fullbright_frac_division[of am_frac "[0]" 0] fullbright_frac_division[of am_frac "[1]" 0]
  by (simp add: same_shape_def masked_texels_def am_frac_def)

section \<open>The palette tables\<close>

lemma reshape3_props:
  "length lump = 3 * n \<Longrightarrow>
     length (reshape3 lump) = n
     \<and> (\<forall>i<n. reshape3 lump ! i = [lump ! (3 * i), lump ! (3 * i + 1), lump ! (3 * i + 2)])"
proof (induction lump arbitrary: n rule: reshape3.induct)
  case (1 r g b rest)
  then obtain m where n: "n = Suc m" "length rest = 3 * m" by (cases n) auto
  from "1.IH"[OF n(2)] have ih: "length (reshape3 rest) = m"
    "\<forall>i<m. reshape3 rest ! i = [rest ! (3 * i), rest ! (3 * i + 1), rest ! (3 * i + 2)]" by auto
  have "\<forall>i<n. reshape3 (r # g # b # rest) ! i
          = [(r # g # b # rest) ! (3 * i), (r # g # b # rest) ! (3 * i + 1),
             (r # g # b # rest) ! (3 * i + 2)]"
  proof (intro allI impI)
    fix i assume "i < n"
    show "reshape3 (r # g # b # rest) ! i
          = [(r # g # b # rest) ! (3 * i), (r # g # b # rest) ! (3 * i + 1),
             (r # g # b # rest) ! (3 * i + 2)]"
    proof (cases i)
      case 0
      then show ?thesis by simp
    next
      case (Suc k)
      with \<open>i < n\<close> n have "k < m" by simp
      with ih(2) have "reshape3 rest ! k = [rest ! (3 * k), rest ! (3 * k + 1), rest ! (3 * k + 2)]"
        by simp
      moreover have "3 * Suc k = Suc (Suc (Suc (3 * k)))" by simp
      ultimately show ?thesis using Suc by simp
    qed
  qed
  with ih(1) n show ?case by simp
qed simp_all

lemma byte_unit_interval: "(0::rat) \<le> of_nat (unat (b::byte)) / 255 \<and> of_nat (unat b) / 255 \<le> (1::rat)"
proof -
  have gen: "\<And>n::nat. n \<le> 255 \<Longrightarrow> (0::rat) \<le> of_nat n / 255 \<and> of_nat n / 255 \<le> (1::rat)"
    by simp
  have "unat b < 256" using unsigned_less[of b] by simp
  then have "unat b \<le> 255" by simp
  then show ?thesis by (rule gen)
qed

text \<open>
  Claim C7, as amended. On a lump of 768 bytes \<open>load_model\<close>'s palette step returns: it
  reshapes the lump into exactly 256 rows of three values, each byte scaled into the
  interval from 0 to 1. On a lump of any other length it fails. \<open>add_model\<close> appends a constant alpha of one to every row of the
  palette it is given, so a 256 by 3 palette becomes a 256 by 4 table; it fails exactly when
  the palette does not have 256 rows. The width of the rows is not checked.
\<close>

theorem palette_tables:
  "(length lump = 768 \<longrightarrow>
      load_palette lump = Inr (map (map (\<lambda>b. of_nat (unat b) / 255)) (reshape3 lump))
    \<and> (\<exists>pal. load_palette lump = Inr pal))
   \<and> (load_palette lump = Inl ValueError \<longleftrightarrow> length lump \<noteq> 768)
   \<and> (\<forall>pal. load_palette lump = Inr pal \<longrightarrow>
         length pal = 256
       \<and> (\<forall>i<256. pal ! i = [of_nat (unat (lump ! (3 * i))) / 255,
                               of_nat (unat (lump ! (3 * i + 1))) / 255,
                               of_nat (unat (lump ! (3 * i + 2))) / 255])
       \<and> (\<forall>row\<in>set pal. length row = 3 \<and> (\<forall>x\<in>set row. 0 \<le> x \<and> x \<le> 1)))
   \<and> (add_alpha p = Inl ValueError \<longleftrightarrow> length p \<noteq> 256)
   \<and> (length p = 256 \<longrightarrow> add_alpha p = Inr (map (\<lambda>row. row @ [1]) p))
   \<and> (length p = 256 \<and> (\<forall>row\<in>set p. length row = 3) \<longrightarrow>
        (\<exists>q. add_alpha p = Inr q \<and> length q = 256
           \<and> (\<forall>i<256. length (q ! i) = 4 \<and> take 3 (q ! i) = p ! i \<and> q ! i ! 3 = 1)))"
proof -
  have s: "length lump = 768 \<longrightarrow>
      load_palette lump = Inr (map (map (\<lambda>b. of_nat (unat b) / 255)) (reshape3 lump))
    \<and> (\<exists>pal. load_palette lump = Inr pal)"
    by (simp add: load_palette_def)
  have a: "load_palette lump = Inl ValueError \<longleftrightarrow> length lump \<noteq> 768"
    by (simp add: load_palette_def)
  have b: "\<forall>pal. load_palette lump = Inr pal \<longrightarrow>
         length pal = 256
       \<and> (\<forall>i<256. pal ! i = [of_nat (unat (lump ! (3 * i))) / 255,
                               of_nat (unat (lump ! (3 * i + 1))) / 255,
                               of_nat (unat (lump ! (3 * i + 2))) / 255])
       \<and> (\<forall>row\<in>set pal. length row = 3 \<and> (\<forall>x\<in>set row. 0 \<le> x \<and> x \<le> 1))"
  proof (intro allI impI)
    fix pal assume ok: "load_palette lump = Inr pal"
    then have len: "length lump = 3 * 256"
      and pal: "pal = map (map (\<lambda>b. of_nat (unat b) / 255)) (reshape3 lump)"
      by (auto simp: load_palette_def split: if_splits)
    from reshape3_props[OF len] have r: "length (reshape3 lump) = 256"
      "\<forall>i<256. reshape3 lump ! i = [lump ! (3 * i), lump ! (3 * i + 1), lump ! (3 * i + 2)]"
      by auto
    have l: "length pal = 256" using r(1) pal by simp
    have rows: "\<forall>i<256. pal ! i = [of_nat (unat (lump ! (3 * i))) / 255,
                               of_nat (unat (lump ! (3 * i + 1))) / 255,
                               of_nat (unat (lump ! (3 * i + 2))) / 255]"
      using r pal by simp
    have "\<forall>row\<in>set pal. length row = 3 \<and> (\<forall>x\<in>set row. 0 \<le> x \<and> x \<le> 1)"
    proof
      fix row assume "row \<in> set pal"
      then obtain i where i: "i < length pal" "row = pal ! i" by (auto simp: in_set_conv_nth)
      with l rows have row: "row = [of_nat (unat (lump ! (3 * i))) / 255,
                               of_nat (unat (lump ! (3 * i + 1))) / 255,
                               of_nat (unat (lump ! (3 * i + 2))) / 255]" by simp
      show "length row = 3 \<and> (\<forall>x\<in>set row. 0 \<le> x \<and> x \<le> 1)"
        unfolding row using byte_unit_interval by simp
    qed
    with l rows show "length pal = 256
       \<and> (\<forall>i<256. pal ! i = [of_nat (unat (lump ! (3 * i))) / 255,
                               of_nat (unat (lump ! (3 * i + 1))) / 255,
                               of_nat (unat (lump ! (3 * i + 2))) / 255])
       \<and> (\<forall>row\<in>set pal. length row = 3 \<and> (\<forall>x\<in>set row. 0 \<le> x \<and> x \<le> 1))" by blast
  qed
  have c: "add_alpha p = Inl ValueError \<longleftrightarrow> length p \<noteq> 256"
    by (simp add: add_alpha_def)
  have d: "length p = 256 \<longrightarrow> add_alpha p = Inr (map (\<lambda>row. row @ [1]) p)"
    by (simp add: add_alpha_def)
  have e: "length p = 256 \<and> (\<forall>row\<in>set p. length row = 3) \<longrightarrow>
        (\<exists>q. add_alpha p = Inr q \<and> length q = 256
           \<and> (\<forall>i<256. length (q ! i) = 4 \<and> take 3 (q ! i) = p ! i \<and> q ! i ! 3 = 1))"
    by (auto simp: add_alpha_def nth_append)
  from s a b c d e show ?thesis by blast
qed

theorem palette_tables_witness:
  "(\<exists>pal. load_palette (replicate 768 255) = Inr pal \<and> length pal = 256 \<and> pal ! 0 = [1, 1, 1])
   \<and> load_palette (replicate 767 255) = Inl ValueError
   \<and> (\<exists>q. add_alpha (replicate 256 [0, 0, 0]) = Inr q \<and> length q = 256 \<and> q ! 0 = [0, 0, 0, 1])
   \<and> add_alpha (replicate 255 [0, 0, 0]) = Inl ValueError"
proof -
  let ?lump = "replicate 768 (255::byte)"
  let ?p = "replicate 256 [0, 0, 0::rat]"
  note t = palette_tables[of ?lump ?p]
  have len: "length ?lump = 768" by (rule length_replicate)
  with t obtain pal where pal: "load_palette ?lump = Inr pal" by blast
  with t have l: "length pal = 256"
    and rows: "\<forall>i<256. pal ! i = [of_nat (unat (?lump ! (3 * i))) / 255,
                               of_nat (unat (?lump ! (3 * i + 1))) / 255,
                               of_nat (unat (?lump ! (3 * i + 2))) / 255]"
    by blast+
  from rows have "pal ! 0 = [of_nat (unat (?lump ! (3 * 0))) / 255,
                               of_nat (unat (?lump ! (3 * 0 + 1))) / 255,
                               of_nat (unat (?lump ! (3 * 0 + 2))) / 255]"
    by (rule allE[of _ 0]) simp
  then have "pal ! 0 = [1, 1, 1]" by simp
  with pal l have a:
    "\<exists>pal. load_palette ?lump = Inr pal \<and> length pal = 256 \<and> pal ! 0 = [1, 1, 1]" by blast
  have b: "load_palette (replicate 767 255) = Inl ValueError"
    unfolding load_palette_def by simp
  have lp: "length ?p = 256" by (rule length_replicate)
  with t have q: "add_alpha ?p = Inr (map (\<lambda>row. row @ [1]) ?p)" by blast
  have "map (\<lambda>row. row @ [1]) ?p ! 0 = [0, 0, 0, 1]" by simp
  with q lp have c: "\<exists>q. add_alpha ?p = Inr q \<and> length q = 256 \<and> q ! 0 = [0, 0, 0, 1]"
    by simp
  have d: "add_alpha (replicate 255 [0, 0, 0]) = Inl ValueError"
    by (simp add: add_alpha_def)
  from a b c d show ?thesis by blast
qed

text \<open>
  Claim C7 as stated fails: a palette of 256 rows of four values is not refused by
  \<open>add_model\<close>'s extension, which yields rows of five values.
\<close>

theorem add_alpha_any_width_counterexample:
  "add_alpha (replicate 256 [0, 0, 0, 0]) = Inr (replicate 256 [0, 0, 0, 0, 1])"
  by (simp add: add_alpha_def)

section \<open>Properties of set_uvs\<close>

lemma set_loop_uvs_props:
  "w \<noteq> 0 \<Longrightarrow> h \<noteq> 0 \<Longrightarrow>
   \<exists>loops1. set_loop_uvs w h loops tcs = Inr loops1 \<and> length loops1 = length loops
     \<and> (\<forall>j<length loops. loops1 ! j =
            (if j < length tcs then (fst (tcs ! j) / of_int w, snd (tcs ! j) / of_int h)
             else loops ! j))"
proof (induction w h loops tcs rule: set_loop_uvs.induct)
  case (1 w h tcs)
  show ?case by simp
next
  case (2 w h bm_loop loops)
  show ?case by simp
next
  case (3 w h bm_loop loops s t tcs)
  from "3.IH" "3.prems" obtain l1 where l1: "set_loop_uvs w h loops tcs = Inr l1"
    "length l1 = length loops"
    "\<forall>j<length loops. l1 ! j =
            (if j < length tcs then (fst (tcs ! j) / of_int w, snd (tcs ! j) / of_int h)
             else loops ! j)" by auto
  have "\<forall>j<length (bm_loop # loops). ((s / of_int w, t / of_int h) # l1) ! j =
            (if j < length ((s, t) # tcs)
             then (fst (((s, t) # tcs) ! j) / of_int w, snd (((s, t) # tcs) ! j) / of_int h)
             else (bm_loop # loops) ! j)"
  proof (intro allI impI)
    fix j assume j: "j < length (bm_loop # loops)"
    show "((s / of_int w, t / of_int h) # l1) ! j =
            (if j < length ((s, t) # tcs)
             then (fst (((s, t) # tcs) ! j) / of_int w, snd (((s, t) # tcs) ! j) / of_int h)
             else (bm_loop # loops) ! j)"
      using j l1(3) by (cases j) auto
  qed
  with l1 "3.prems" show ?case by simp
qed

lemma set_face_uvs_props:
  "skin_width am \<noteq> 0 \<Longrightarrow> skin_height am \<noteq> 0 \<Longrightarrow>
   \<exists>faces1. set_face_uvs am faces tri_set = Inr faces1 \<and> length faces1 = length faces
     \<and> (\<forall>i<length faces. length (faces1 ! i) = length (faces ! i)
          \<and> (\<forall>j<length (faces ! i). faces1 ! i ! j =
               (if i < length tri_set \<and> j < length (get_tri_tcs am (tri_set ! i))
                then (fst (get_tri_tcs am (tri_set ! i) ! j) / of_int (skin_width am),
                      snd (get_tri_tcs am (tri_set ! i) ! j) / of_int (skin_height am))
                else faces ! i ! j)))"
proof (induction am faces tri_set rule: set_face_uvs.induct)
  case (1 am tri_set)
  show ?case by simp
next
  case (2 am bm_face faces)
  show ?case by simp
next
  case (3 am bm_face faces tri_idx tri_set)
  from set_loop_uvs_props[OF "3.prems", of bm_face "get_tri_tcs am tri_idx"]
  obtain f1 where f1: "set_loop_uvs (skin_width am) (skin_height am) bm_face (get_tri_tcs am tri_idx) = Inr f1"
    "length f1 = length bm_face"
    "\<forall>j<length bm_face. f1 ! j =
            (if j < length (get_tri_tcs am tri_idx)
             then (fst (get_tri_tcs am tri_idx ! j) / of_int (skin_width am),
                   snd (get_tri_tcs am tri_idx ! j) / of_int (skin_height am))
             else bm_face ! j)" by blast
  from "3.IH"[OF f1(1) "3.prems"] obtain fs1 where fs1:
    "set_face_uvs am faces tri_set = Inr fs1" "length fs1 = length faces"
    "\<forall>i<length faces. length (fs1 ! i) = length (faces ! i)
          \<and> (\<forall>j<length (faces ! i). fs1 ! i ! j =
               (if i < length tri_set \<and> j < length (get_tri_tcs am (tri_set ! i))
                then (fst (get_tri_tcs am (tri_set ! i) ! j) / of_int (skin_width am),
                      snd (get_tri_tcs am (tri_set ! i) ! j) / of_int (skin_height am))
                else faces ! i ! j))" by blast
  have "\<forall>i<length (bm_face # faces). length ((f1 # fs1) ! i) = length ((bm_face # faces) ! i)
          \<and> (\<forall>j<length ((bm_face # faces) ! i). (f1 # fs1) ! i ! j =
               (if i < length (tri_idx # tri_set)
                    \<and> j < length (get_tri_tcs am ((tri_idx # tri_set) ! i))
                then (fst (get_tri_tcs am ((tri_idx # tri_set) ! i) ! j) / of_int (skin_width am),
                      snd (get_tri_tcs am ((tri_idx # tri_set) ! i) ! j) / of_int (skin_height am))
                else (bm_face # faces) ! i ! j))"
  proof (intro allI impI)
    fix i assume i: "i < length (bm_face # faces)"
    show "length ((f1 # fs1) ! i) = length ((bm_face # faces) ! i)
          \<and> (\<forall>j<length ((bm_face # faces) ! i). (f1 # fs1) ! i ! j =
               (if i < length (tri_idx # tri_set)
                    \<and> j < length (get_tri_tcs am ((tri_idx # tri_set) ! i))
                then (fst (get_tri_tcs am ((tri_idx # tri_set) ! i) ! j) / of_int (skin_width am),
                      snd (get_tri_tcs am ((tri_idx # tri_set) ! i) ! j) / of_int (skin_height am))
                else (bm_face # faces) ! i ! j))"
    proof (cases i)
      case 0
      with f1 show ?thesis by simp
    next
      case (Suc k)
      with i fs1(3) show ?thesis by simp
    qed
  qed
  with f1(1) fs1(1,2) show ?case by simp
qed

text \<open>
  Claim C6. On a mesh as \<open>add_model\<close> builds it (no UV layer yet), with skin dimensions
  that are not zero, \<open>_set_uvs\<close> returns and gives the mesh one UV layer in which loop
  \<open>j\<close> of the face of triangle \<open>tri_set[i]\<close> holds \<open>(s / skin_width, t / skin_height)\<close>,
  where \<open>(s, t)\<close> is the \<open>j\<close>-th texture coordinate \<open>get_tri_tcs\<close> returns for that
  triangle.
\<close>

theorem set_uvs_assigns_tcs:
  assumes "skin_width am \<noteq> 0" and "skin_height am \<noteq> 0" and "uv_layers m = []"
  shows "\<exists>uv_layer. set_uvs m am tri_set = Inr (m\<lparr>uv_layers := [uv_layer]\<rparr>)
           \<and> length uv_layer = length (mesh_faces m)
           \<and> (\<forall>i<length (mesh_faces m). length (uv_layer ! i) = length (mesh_faces m ! i)
               \<and> (\<forall>j<length (mesh_faces m ! i).
                    i < length tri_set \<longrightarrow> j < length (get_tri_tcs am (tri_set ! i)) \<longrightarrow>
                      uv_layer ! i ! j =
                        (fst (get_tri_tcs am (tri_set ! i) ! j) / of_int (skin_width am),
                         snd (get_tri_tcs am (tri_set ! i) ! j) / of_int (skin_height am))))"
proof -
  let ?zero = "map (\<lambda>face. map (\<lambda>v. (0::rat, 0::rat)) face) (mesh_faces m)"
  from set_face_uvs_props[OF assms(1,2), of ?zero tri_set]
  obtain l where l: "set_face_uvs am ?zero tri_set = Inr l" "length l = length ?zero"
    "\<forall>i<length ?zero. length (l ! i) = length (?zero ! i)
          \<and> (\<forall>j<length (?zero ! i). l ! i ! j =
               (if i < length tri_set \<and> j < length (get_tri_tcs am (tri_set ! i))
                then (fst (get_tri_tcs am (tri_set ! i) ! j) / of_int (skin_width am),
                      snd (get_tri_tcs am (tri_set ! i) ! j) / of_int (skin_height am))
                else ?zero ! i ! j))" by blast
  have run: "set_uvs m am tri_set = Inr (m\<lparr>uv_layers := [l]\<rparr>)"
    using l(1) assms(3) by (simp add: set_uvs_def)
  have len: "length l = length (mesh_faces m)" using l(2) by simp
  have uv: "\<forall>i<length (mesh_faces m). length (l ! i) = length (mesh_faces m ! i)
               \<and> (\<forall>j<length (mesh_faces m ! i).
                    i < length tri_set \<longrightarrow> j < length (get_tri_tcs am (tri_set ! i)) \<longrightarrow>
                      l ! i ! j =
                        (fst (get_tri_tcs am (tri_set ! i) ! j) / of_int (skin_width am),
                         snd (get_tri_tcs am (tri_set ! i) ! j) / of_int (skin_height am)))"
    using l(3) by simp
  from run len uv show ?thesis by blast
qed


theorem set_uvs_assigns_tcs_witness:
  "skin_width am0 \<noteq> 0 \<and> skin_height am0 \<noteq> 0 \<and> uv_layers mesh0 = []
   \<and> set_uvs mesh0 am0 [1] = Inr (mesh0\<lparr>uv_layers := [[[(0, 0), (1 / 2, 0), (0, 1 / 2)]]]\<rparr>)"
  using set_uvs_assigns_tcs[of am0 mesh0 "[1]"]
  by (simp add: set_uvs_def am0_def mesh0_def)

section \<open>Properties of animate\<close>

lemma length_set_and_key [simp]: "length (set_and_key b v f keys) = length keys"
  by (simp add: set_and_key_def)

lemma set_and_key_has: "b < length keys \<Longrightarrow> has_keyframe (set_and_key b v f keys) b f v"
  by (simp add: has_keyframe_def set_and_key_def keyframe_insert_def)

lemma set_and_key_mono:
  "has_keyframe keys b f v \<Longrightarrow> has_keyframe (set_and_key b' v' f' keys) b f v"
  by (cases "b = b'") (auto simp: has_keyframe_def set_and_key_def keyframe_insert_def)

lemma animate_loop_length:
  "animate_loop blocks fps frames prev keys = Inr (prev', keys') \<Longrightarrow> length keys' = length keys"
proof (induction frames arbitrary: prev keys)
  case Nil
  then show ?case by simp
next
  case (Cons e rest)
  obtain t fn where e: "e = (t, fn)" by (cases e)
  from Cons.prems e obtain b where b: "blocks fn = Some b" by (auto split: option.splits)
  show ?case
  proof (cases prev)
    case None
    with Cons.prems e b have "animate_loop blocks fps rest (Some (b, t))
        (set_and_key b 1 (frame_no fps t) keys) = Inr (prev', keys')" by simp
    from Cons.IH[OF this] show ?thesis by simp
  next
    case (Some pp)
    obtain pb pt where pp: "pp = (pb, pt)" by (cases pp)
    with Some Cons.prems e b have "animate_loop blocks fps rest (Some (b, t))
        (set_and_key pb 0 (frame_no fps t) (set_and_key b 0 (frame_no fps pt)
           (set_and_key b 1 (frame_no fps t) keys))) = Inr (prev', keys')" by simp
    from Cons.IH[OF this] show ?thesis by simp
  qed
qed

lemma animate_loop_mono:
  "animate_loop blocks fps frames prev keys = Inr (prev', keys') \<Longrightarrow>
   has_keyframe keys b0 f v \<Longrightarrow> has_keyframe keys' b0 f v"
proof (induction frames arbitrary: prev keys)
  case Nil
  then show ?case by simp
next
  case (Cons e rest)
  obtain t fn where e: "e = (t, fn)" by (cases e)
  from Cons.prems e obtain b where b: "blocks fn = Some b" by (auto split: option.splits)
  show ?case
  proof (cases prev)
    case None
    with Cons.prems e b have "animate_loop blocks fps rest (Some (b, t))
        (set_and_key b 1 (frame_no fps t) keys) = Inr (prev', keys')" by simp
    from Cons.IH[OF this set_and_key_mono[OF Cons.prems(2)]] show ?thesis .
  next
    case (Some pp)
    obtain pb pt where pp: "pp = (pb, pt)" by (cases pp)
    with Some Cons.prems e b have "animate_loop blocks fps rest (Some (b, t))
        (set_and_key pb 0 (frame_no fps t) (set_and_key b 0 (frame_no fps pt)
           (set_and_key b 1 (frame_no fps t) keys))) = Inr (prev', keys')" by simp
    from Cons.IH[OF this set_and_key_mono[OF set_and_key_mono[OF set_and_key_mono[OF Cons.prems(2)]]]]
    show ?thesis .
  qed
qed

lemma animate_loop_head:
  assumes "animate_loop blocks fps ((t, fn) # rest) prev keys = Inr (prev', keys')"
      and "blocks fn = Some b" and "b < length keys"
  shows "has_keyframe keys' b (frame_no fps t) 1"
    and "\<And>pb pt. prev = Some (pb, pt) \<Longrightarrow> pb < length keys \<Longrightarrow>
           has_keyframe keys' b (frame_no fps pt) 0 \<and> has_keyframe keys' pb (frame_no fps t) 0"
proof -
  let ?k1 = "set_and_key b 1 (frame_no fps t) keys"
  have h1: "has_keyframe ?k1 b (frame_no fps t) 1" using assms(3) by (rule set_and_key_has)
  show "has_keyframe keys' b (frame_no fps t) 1"
  proof (cases prev)
    case None
    with assms have "animate_loop blocks fps rest (Some (b, t)) ?k1 = Inr (prev', keys')" by simp
    from animate_loop_mono[OF this h1] show ?thesis .
  next
    case (Some pp)
    obtain pb pt where pp: "pp = (pb, pt)" by (cases pp)
    with Some assms have "animate_loop blocks fps rest (Some (b, t))
        (set_and_key pb 0 (frame_no fps t) (set_and_key b 0 (frame_no fps pt) ?k1))
          = Inr (prev', keys')" by simp
    from animate_loop_mono[OF this set_and_key_mono[OF set_and_key_mono[OF h1]]] show ?thesis .
  qed
next
  fix pb pt assume prev: "prev = Some (pb, pt)" and pb: "pb < length keys"
  let ?k1 = "set_and_key b 1 (frame_no fps t) keys"
  let ?k2 = "set_and_key b 0 (frame_no fps pt) ?k1"
  let ?k3 = "set_and_key pb 0 (frame_no fps t) ?k2"
  from prev assms have run: "animate_loop blocks fps rest (Some (b, t)) ?k3 = Inr (prev', keys')"
    by simp
  have "has_keyframe ?k2 b (frame_no fps pt) 0" using assms(3) by (simp add: set_and_key_has)
  then have a: "has_keyframe ?k3 b (frame_no fps pt) 0" by (rule set_and_key_mono)
  have b: "has_keyframe ?k3 pb (frame_no fps t) 0" using pb by (simp add: set_and_key_has)
  from animate_loop_mono[OF run a] animate_loop_mono[OF run b]
  show "has_keyframe keys' b (frame_no fps pt) 0 \<and> has_keyframe keys' pb (frame_no fps t) 0"
    by simp
qed

lemma animate_loop_step:
  assumes "animate_loop blocks fps ((t, fn) # rest) prev keys = Inr (prev', keys')"
  shows "\<exists>b keys2. blocks fn = Some b \<and> length keys2 = length keys
      \<and> animate_loop blocks fps rest (Some (b, t)) keys2 = Inr (prev', keys')"
proof -
  from assms obtain b where b: "blocks fn = Some b" by (auto split: option.splits)
  show ?thesis
  proof (cases prev)
    case None
    with assms b have "animate_loop blocks fps rest (Some (b, t))
        (set_and_key b 1 (frame_no fps t) keys) = Inr (prev', keys')" by simp
    with b show ?thesis
      by (intro exI[of _ b] exI[of _ "set_and_key b 1 (frame_no fps t) keys"]) simp
  next
    case (Some pp)
    obtain pb pt where pp: "pp = (pb, pt)" by (cases pp)
    with Some assms b have "animate_loop blocks fps rest (Some (b, t))
        (set_and_key pb 0 (frame_no fps t) (set_and_key b 0 (frame_no fps pt)
           (set_and_key b 1 (frame_no fps t) keys))) = Inr (prev', keys')" by simp
    with b show ?thesis
      by (intro exI[of _ b] exI[of _ "set_and_key pb 0 (frame_no fps t)
            (set_and_key b 0 (frame_no fps pt) (set_and_key b 1 (frame_no fps t) keys))"]) simp
  qed
qed

lemma animate_loop_own:
  "animate_loop blocks fps frames prev keys = Inr (prev', keys') \<Longrightarrow>
   i < length frames \<Longrightarrow> blocks (snd (frames ! i)) = Some b \<Longrightarrow> b < length keys \<Longrightarrow>
   has_keyframe keys' b (frame_no fps (fst (frames ! i))) 1"
proof (induction frames arbitrary: i prev keys)
  case Nil
  then show ?case by simp
next
  case (Cons e rest)
  obtain t fn where e: "e = (t, fn)" by (cases e)
  show ?case
  proof (cases i)
    case 0
    with Cons.prems e animate_loop_head(1)[of blocks fps t fn rest prev keys prev' keys' b]
    show ?thesis by simp
  next
    case (Suc k)
    from animate_loop_step[of blocks fps t fn rest prev keys prev' keys'] Cons.prems(1) e
    obtain b1 keys2 where s: "length keys2 = length keys"
      "animate_loop blocks fps rest (Some (b1, t)) keys2 = Inr (prev', keys')" by auto
    from Cons.IH[OF s(2), of k] Cons.prems Suc s(1) show ?thesis by simp
  qed
qed



lemma animate_loop_KeyError:
  "\<exists>e\<in>set frames. snd e \<notin> dom blocks \<Longrightarrow>
   animate_loop blocks fps frames prev keys = Inl KeyError"
proof (induction frames arbitrary: prev keys)
  case Nil
  then show ?case by simp
next
  case (Cons e rest)
  obtain t fn where e: "e = (t, fn)" by (cases e)
  show ?case
  proof (cases "blocks fn")
    case None
    with e show ?thesis by simp
  next
    case (Some b)
    with Cons.prems e have "\<exists>e\<in>set rest. snd e \<notin> dom blocks" by auto
    from Cons.IH[OF this] Some e show ?thesis by (cases prev) (auto simp: Let_def)
  qed
qed

lemma set_linear_has:
  "has_keyframe keys b f v \<Longrightarrow> has_keyframe (map set_linear keys) b f v"
  by (auto simp: has_keyframe_def set_linear_def list_ex_iff)





section \<open>load_model\<close>

lemma call_add_model_without_cfg:
  "call_add_model aifi am pal mdl_name obj_name frames skin_idx final_time None static fps h
     = Inl TypeError"
  by (cases final_time) (simp_all add: call_add_model_def)

lemma load_model_never_returns:
  "load_model aifi alias_model_of fs mdl_name obj_name frames skin_idx fps h \<noteq> Inr h'"
  by (simp add: load_model_def call_add_model_without_cfg split: option.splits sum.splits)

lemma load_model_TypeError:
  assumes "fs (''progs/'' @ mdl_name @ ''.mdl'') = Some data"
      and "alias_model_of data = Inr am"
      and "fs ''gfx/palette.lmp'' = Some lump"
      and "length lump = 768"
  shows "load_model aifi alias_model_of fs mdl_name obj_name frames skin_idx fps h = Inl TypeError"
proof -
  from assms(4) obtain pal where "load_palette lump = Inr pal" by (simp add: load_palette_def)
  with assms(1-3) show ?thesis
    by (simp add: load_model_def call_add_model_without_cfg)
qed

text \<open>
  Claim C4. \<open>load_model\<close> opens the model file and decodes the palette, but its call of
  \<open>add_model\<close> passes seven positional arguments to a function with eight parameters
  without a default: \<open>fps\<close> lands in \<open>final_time\<close> and \<open>mdls_cfg\<close> is missing. With
  the model file present and a palette of 768 bytes the call raises \<open>TypeError\<close>; the
  construction never runs.
\<close>

theorem load_model_raises_TypeError:
  "load_model aifi0 (\<lambda>data. Inr am0) fs0 ''player'' ''p1'' [(0, 0)] 0 30 h0 = Inl TypeError"
proof (rule load_model_TypeError)
  show "fs0 (''progs/'' @ ''player'' @ ''.mdl'') = Some []" by (simp add: fs0_def)
  show "Inr am0 = Inr am0" by (rule refl)
  show "fs0 ''gfx/palette.lmp'' = Some (replicate 768 0)" by (simp add: fs0_def)
  show "length (replicate 768 (0::byte)) = 768" by (rule length_replicate)
qed

section \<open>One pass of add_model's loop\<close>

lemma gather_iff:
  "gather xs is = (if \<forall>i\<in>set is. i < length xs then Inr (map ((!) xs) is) else Inl IndexError)"
  by (induction "is") auto

lemma simplify_pydata_cases:
  "\<exists>nts. length nts = length tris
     \<and> (\<forall>i<length tris. length (nts ! i) = length (tris ! i)
           \<and> (\<forall>j<length (tris ! i). nts ! i ! j < length (first_use_order (concat tris))
                  \<and> first_use_order (concat tris) ! (nts ! i ! j) = tris ! i ! j))
     \<and> simplify_pydata verts tris =
         (if \<forall>v\<in>set (concat tris). v < length verts
          then Inr ((map ((!) verts) (first_use_order (concat tris)), [], nts),
                    first_use_order (concat tris))
          else Inl IndexError)"
proof -
  from simplify_tris_props[of "[]" tris] obtain vm nts where
    r: "simplify_tris [] tris = Inr (vm, nts)" "length nts = length tris"
       "\<forall>i<length tris. length (nts ! i) = length (tris ! i)
            \<and> (\<forall>j<length (tris ! i). nts ! i ! j < length vm
                   \<and> vm ! (nts ! i ! j) = tris ! i ! j)"
       "vm = fold add_first (concat tris) []" by auto
  have vm: "vm = first_use_order (concat tris)"
    using r(4) by (simp add: fold_add_first)
  have s: "set vm = set (concat tris)" unfolding vm by (rule distinct_first_use_order)
  have "simplify_pydata verts tris =
         (if \<forall>v\<in>set (concat tris). v < length verts
          then Inr ((map ((!) verts) vm, [], nts), vm) else Inl IndexError)"
    using r(1) s by (simp add: simplify_pydata_def gather_iff)
  with r(2,3) show ?thesis unfolding vm by blast
qed

lemma initial_verts_cases:
  "initial_verts am = Inl e \<Longrightarrow> e = IndexError"
  by (auto simp: initial_verts_def split: list.splits frame.splits)

lemma new_mesh_object_Inr:
  assumes "new_mesh_object am obj_name obj i ts h = Inr ((msh, subobj, vm), h')"
  shows "\<exists>verts nts. initial_verts am = Inr verts
     \<and> (\<forall>t\<in>set ts. t < length (am_tris am))
     \<and> (\<forall>v\<in>set (concat (tri_set_tris am ts)). v < length verts)
     \<and> vm = tri_set_vert_map am ts
     \<and> length nts = length ts
     \<and> (\<forall>f<length ts. length (nts ! f) = length (am_tris am ! (ts ! f))
           \<and> (\<forall>j<length (am_tris am ! (ts ! f)). nts ! f ! j < length vm
                  \<and> vm ! (nts ! f ! j) = am_tris am ! (ts ! f) ! j))
     \<and> msh = length (meshes h) \<and> subobj = length (objects h)
     \<and> h' = nmo_host am obj_name obj i vm nts verts h"
proof -
  from assms obtain verts where v: "initial_verts am = Inr verts"
    by (cases "initial_verts am") (auto simp: new_mesh_object_def Let_def)
  from assms v have g: "\<forall>t\<in>set ts. t < length (am_tris am)"
    by (auto simp: new_mesh_object_def Let_def gather_iff split: if_splits)
  then have gt: "gather (am_tris am) ts = Inr (tri_set_tris am ts)"
    by (simp add: gather_iff tri_set_tris_def)
  let ?tris = "tri_set_tris am ts"
  from simplify_pydata_cases[of ?tris verts] obtain nts where n:
    "length nts = length ?tris"
    "\<forall>i<length ?tris. length (nts ! i) = length (?tris ! i)
           \<and> (\<forall>j<length (?tris ! i). nts ! i ! j < length (first_use_order (concat ?tris))
                  \<and> first_use_order (concat ?tris) ! (nts ! i ! j) = ?tris ! i ! j)"
    "simplify_pydata verts ?tris =
         (if \<forall>v\<in>set (concat ?tris). v < length verts
          then Inr ((map ((!) verts) (first_use_order (concat ?tris)), [], nts),
                    first_use_order (concat ?tris))
          else Inl IndexError)" by blast
  from assms v gt n(3) have inr: "\<forall>v\<in>set (concat ?tris). v < length verts"
    by (auto simp: new_mesh_object_def Let_def split: if_splits)
  with n(3) have sp: "simplify_pydata verts ?tris =
      Inr ((map ((!) verts) (tri_set_vert_map am ts), [], nts), tri_set_vert_map am ts)"
    by (simp add: tri_set_vert_map_def)
  from assms v gt sp have res: "vm = tri_set_vert_map am ts" "msh = length (meshes h)"
    "subobj = length (objects h)" "h' = nmo_host am obj_name obj i vm nts verts h"
    by (auto simp: new_mesh_object_def Let_def meshes_new_def objects_new_def upd_mesh_def
          upd_obj_def link_def from_pydata_def nmo_host_def subobj_name_def)
  have geo: "\<forall>f<length ts. length (nts ! f) = length (am_tris am ! (ts ! f))
           \<and> (\<forall>j<length (am_tris am ! (ts ! f)). nts ! f ! j < length vm
                  \<and> vm ! (nts ! f ! j) = am_tris am ! (ts ! f) ! j)"
    using n(2) res(1) by (simp add: tri_set_tris_def tri_set_vert_map_def)
  have "length nts = length ts" using n(1) by (simp add: tri_set_tris_def)
  with v g inr res geo show ?thesis by blast
qed

lemma simplify_pydata_Inl:
  "simplify_pydata verts tris = Inl e \<Longrightarrow> e = IndexError"
  using simplify_pydata_cases[of tris verts] by (auto split: if_splits)

lemma new_mesh_object_Inl:
  "new_mesh_object am obj_name obj i ts h = Inl e \<Longrightarrow> e = IndexError"
  by (auto simp: new_mesh_object_def Let_def gather_iff
           dest: initial_verts_cases simplify_pydata_Inl split: sum.splits if_splits)

lemma set_block_verts_iff:
  "length data = length vm \<Longrightarrow>
   set_block_verts fv vm data =
     (if \<forall>i\<in>set vm. i < length fv then Inr (map ((!) fv) vm) else Inl IndexError)"
proof (induction fv vm data rule: set_block_verts.induct)
  case (1 fv data)
  then show ?case by simp
next
  case (2 fv i rest)
  then show ?case by simp
next
  case (3 fv i rest bv data)
  then show ?case by auto
qed

lemma set_block_verts_Inl: "set_block_verts fv vm data = Inl e \<Longrightarrow> e = IndexError"
  by (induction fv vm data rule: set_block_verts.induct) (auto split: if_splits sum.splits)

lemma create_block_Inl: "create_block obj sf vm h = Inl e \<Longrightarrow> e = IndexError"
  by (auto simp: create_block_def Let_def dest: set_block_verts_Inl split: sum.splits)

lemma add_keys_Nil: "obj < length (objects h) \<Longrightarrow> add_keys obj [] h = h"
  by (simp add: add_keys_def)

lemma add_keys_add_keys:
  "obj < length (objects h) \<Longrightarrow> add_keys obj ks2 (add_keys obj ks1 h) = add_keys obj (ks1 @ ks2) h"
  by (simp add: add_keys_def)

lemma fits_add_keys: "fits h obj vm \<Longrightarrow> fits (add_keys obj ks h) obj vm"
  by (auto simp: fits_def add_keys_def)

lemma shape_keys_add_keys:
  "obj < length (objects h) \<Longrightarrow>
     shape_keys (objects (add_keys obj ks h) ! obj) = shape_keys (objects h ! obj) @ ks"
  by (simp add: add_keys_def)

lemma create_block_iff:
  "fits h obj vm \<Longrightarrow>
   create_block obj sf vm h =
     (if \<forall>i\<in>set vm. i < length (frame_verts sf)
      then Inr (length (shape_keys (objects h ! obj)), add_keys obj [block_of vm sf] h)
      else Inl IndexError)"
  by (auto simp: create_block_def Let_def fits_def set_block_verts_iff add_keys_def upd_obj_def
        block_of_def)

lemma single_blocks_Inr:
  "single_blocks obj vm n frames blocks h = Inr (blocks', h') \<Longrightarrow> fits h obj vm \<Longrightarrow>
   \<exists>sfs. frames = map Single sfs
     \<and> (\<forall>sf\<in>set sfs. \<forall>i\<in>set vm. i < length (frame_verts sf))
     \<and> h' = add_keys obj (map (block_of vm) sfs) h
     \<and> blocks' = (\<lambda>k. if n \<le> k \<and> k < n + length frames
                        then Some (length (shape_keys (objects h ! obj)) + (k - n))
                        else blocks k)"
proof (induction frames arbitrary: n blocks h)
  case Nil
  then show ?case by (auto simp: add_keys_Nil fits_def fun_eq_iff)
next
  case (Cons f rest)
  from Cons.prems(1) obtain sf where f: "f = Single sf" by (cases f) auto
  let ?b = "length (shape_keys (objects h ! obj))"
  let ?h1 = "add_keys obj [block_of vm sf] h"
  from Cons.prems f create_block_iff[OF Cons.prems(2), of sf]
  have ok: "\<forall>i\<in>set vm. i < length (frame_verts sf)"
    and run: "single_blocks obj vm (Suc n) rest (blocks(n \<mapsto> ?b)) ?h1 = Inr (blocks', h')"
    by (auto split: if_splits)
  have obj: "obj < length (objects h)" using Cons.prems(2) by (simp add: fits_def)
  from Cons.IH[OF run fits_add_keys[OF Cons.prems(2)]] obtain sfs where r:
    "rest = map Single sfs" "\<forall>sf\<in>set sfs. \<forall>i\<in>set vm. i < length (frame_verts sf)"
    "h' = add_keys obj (map (block_of vm) sfs) ?h1"
    "blocks' = (\<lambda>k. if Suc n \<le> k \<and> k < Suc n + length rest
                        then Some (length (shape_keys (objects ?h1 ! obj)) + (k - Suc n))
                        else (blocks(n \<mapsto> ?b)) k)" by blast
  have h': "h' = add_keys obj (map (block_of vm) (sf # sfs)) h"
    using r(3) obj by (simp add: add_keys_add_keys)
  have b': "blocks' = (\<lambda>k. if n \<le> k \<and> k < n + length (f # rest)
                        then Some (?b + (k - n)) else blocks k)"
    unfolding r(4) using obj by (auto simp: shape_keys_add_keys fun_eq_iff)
  from f r(1,2) ok h' b' show ?case by (intro exI[of _ "sf # sfs"]) simp
qed

lemma single_blocks_Inl:
  "single_blocks obj vm n frames blocks h = Inl e \<Longrightarrow>
   e = IndexError \<or> (e = NonStaticFrameType GROUP \<and> (\<exists>f\<in>set frames. frame_type f \<noteq> SINGLE))"
proof (induction frames arbitrary: n blocks h)
  case Nil
  then show ?case by simp
next
  case (Cons f rest)
  show ?case
  proof (cases f)
    case (Group sfs ts)
    with Cons.prems show ?thesis by simp
  next
    case (Single sf)
    show ?thesis
    proof (cases "create_block obj sf vm h")
      case (Inl e1)
      with Cons.prems Single have "e = e1" by simp
      with create_block_Inl[OF Inl] show ?thesis by simp
    next
      case (Inr p)
      obtain b h1 where p: "p = (b, h1)" by (cases p)
      with Cons.prems Single Inr
      have "single_blocks obj vm (Suc n) rest (blocks(n \<mapsto> b)) h1 = Inl e" by simp
      from Cons.IH[OF this] show ?thesis by auto
    qed
  qed
qed

lemma single_blocks_raises:
  "fits h obj vm \<Longrightarrow> \<exists>f\<in>set frames. frame_type f \<noteq> SINGLE \<Longrightarrow>
   \<forall>f\<in>set frames. \<forall>sf. f = Single sf \<longrightarrow> (\<forall>i\<in>set vm. i < length (frame_verts sf)) \<Longrightarrow>
   single_blocks obj vm n frames blocks h = Inl (NonStaticFrameType GROUP)"
proof (induction frames arbitrary: n blocks h)
  case Nil
  then show ?case by simp
next
  case (Cons f rest)
  show ?case
  proof (cases f)
    case (Group sfs ts)
    then show ?thesis by simp
  next
    case (Single sf)
    with Cons.prems(2) have ex: "\<exists>f\<in>set rest. frame_type f \<noteq> SINGLE" by simp
    from Cons.prems(3) Single have ok: "\<forall>i\<in>set vm. i < length (frame_verts sf)" by simp
    from Cons.prems(3) have rest: "\<forall>f\<in>set rest. \<forall>sf. f = Single sf \<longrightarrow>
        (\<forall>i\<in>set vm. i < length (frame_verts sf))" by simp
    from Cons.IH[OF fits_add_keys[OF Cons.prems(1)] ex rest] Single ok
      create_block_iff[OF Cons.prems(1), of sf]
    show ?thesis by simp
  qed
qed

lemma group_blocks_Inr:
  "group_blocks obj vm n sfs blocks h = Inr (blocks', h') \<Longrightarrow> fits h obj vm \<Longrightarrow>
     (\<forall>sf\<in>set sfs. \<forall>i\<in>set vm. i < length (frame_verts sf))
     \<and> h' = add_keys obj (map (block_of vm) sfs) h
     \<and> blocks' = (\<lambda>k. if n \<le> k \<and> k < n + length sfs
                        then Some (length (shape_keys (objects h ! obj)) + (k - n))
                        else blocks k)"
proof (induction sfs arbitrary: n blocks h)
  case Nil
  then show ?case by (auto simp: add_keys_Nil fits_def fun_eq_iff)
next
  case (Cons sf rest)
  let ?b = "length (shape_keys (objects h ! obj))"
  let ?h1 = "add_keys obj [block_of vm sf] h"
  from Cons.prems create_block_iff[OF Cons.prems(2), of sf]
  have ok: "\<forall>i\<in>set vm. i < length (frame_verts sf)"
    and run: "group_blocks obj vm (Suc n) rest (blocks(n \<mapsto> ?b)) ?h1 = Inr (blocks', h')"
    by (auto split: if_splits)
  have obj: "obj < length (objects h)" using Cons.prems(2) by (simp add: fits_def)
  from Cons.IH[OF run fits_add_keys[OF Cons.prems(2)]] have r:
    "\<forall>sf\<in>set rest. \<forall>i\<in>set vm. i < length (frame_verts sf)"
    "h' = add_keys obj (map (block_of vm) rest) ?h1"
    "blocks' = (\<lambda>k. if Suc n \<le> k \<and> k < Suc n + length rest
                        then Some (length (shape_keys (objects ?h1 ! obj)) + (k - Suc n))
                        else (blocks(n \<mapsto> ?b)) k)" by blast+
  have h': "h' = add_keys obj (map (block_of vm) (sf # rest)) h"
    using r(2) obj by (simp add: add_keys_add_keys)
  have b': "blocks' = (\<lambda>k. if n \<le> k \<and> k < n + length (sf # rest)
                        then Some (?b + (k - n)) else blocks k)"
    unfolding r(3) using obj by (auto simp: shape_keys_add_keys fun_eq_iff)
  from r(1) ok h' b' show ?case by simp
qed

lemma group_blocks_Inl:
  "group_blocks obj vm n sfs blocks h = Inl e \<Longrightarrow> e = IndexError"
proof (induction sfs arbitrary: n blocks h)
  case Nil
  then show ?case by simp
next
  case (Cons sf rest)
  show ?case
  proof (cases "create_block obj sf vm h")
    case (Inl e1)
    with Cons.prems have "e = e1" by simp
    with create_block_Inl[OF Inl] show ?thesis by simp
  next
    case (Inr p)
    obtain b h1 where p: "p = (b, h1)" by (cases p)
    with Cons.prems Inr
    have "group_blocks obj vm (Suc n) rest (blocks(n \<mapsto> b)) h1 = Inl e" by simp
    from Cons.IH[OF this] show ?thesis .
  qed
qed

lemma add_keys_set_keys:
  "add_keys obj ks h = set_keys obj (shape_keys (objects h ! obj) @ ks) h"
  by (simp add: add_keys_def set_keys_def)

lemma set_keys_set_keys:
  "obj < length (objects h) \<Longrightarrow> set_keys obj ks2 (set_keys obj ks1 h) = set_keys obj ks2 h"
  by (simp add: set_keys_def)

lemma shape_keys_set_keys:
  "obj < length (objects h) \<Longrightarrow> shape_keys (objects (set_keys obj ks h) ! obj) = ks"
  by (simp add: set_keys_def)

lemma map_update_same: "(map f xs)[i := f (xs ! i)] = map f xs"
  by (metis list_update_id map_update)

lemma set_and_key_names:
  "map sk_name (set_and_key b v f keys) = map sk_name keys"
  "map sk_data (set_and_key b v f keys) = map sk_data keys"
  using map_update_same[of sk_name keys b] map_update_same[of sk_data keys b]
  by (simp_all add: set_and_key_def keyframe_insert_def map_update)

lemma set_and_key_other:
  "b \<noteq> b' \<Longrightarrow> set_and_key b' v f keys ! b = keys ! b"
  by (simp add: set_and_key_def)

lemma animate_loop_names:
  "animate_loop blocks fps frames prev keys = Inr (prev', keys') \<Longrightarrow>
   map sk_name keys' = map sk_name keys \<and> map sk_data keys' = map sk_data keys"
proof (induction frames arbitrary: prev keys)
  case Nil
  then show ?case by simp
next
  case (Cons e rest)
  obtain t fn where e: "e = (t, fn)" by (cases e)
  from Cons.prems e obtain b where b: "blocks fn = Some b" by (auto split: option.splits)
  show ?case
  proof (cases prev)
    case None
    with Cons.prems e b have "animate_loop blocks fps rest (Some (b, t))
        (set_and_key b 1 (frame_no fps t) keys) = Inr (prev', keys')" by simp
    from Cons.IH[OF this] show ?thesis by (simp add: set_and_key_names)
  next
    case (Some pp)
    obtain pb pt where pp: "pp = (pb, pt)" by (cases pp)
    with Some Cons.prems e b have "animate_loop blocks fps rest (Some (b, t))
        (set_and_key pb 0 (frame_no fps t) (set_and_key b 0 (frame_no fps pt)
           (set_and_key b 1 (frame_no fps t) keys))) = Inr (prev', keys')" by simp
    from Cons.IH[OF this] show ?thesis by (simp add: set_and_key_names)
  qed
qed

lemma animate_loop_untouched:
  "animate_loop blocks fps frames prev keys = Inr (prev', keys') \<Longrightarrow>
   \<forall>e\<in>set frames. blocks (snd e) \<noteq> Some b0 \<Longrightarrow>
   \<forall>pb pt. prev = Some (pb, pt) \<longrightarrow> pb \<noteq> b0 \<Longrightarrow>
   keys' ! b0 = keys ! b0"
proof (induction frames arbitrary: prev keys)
  case Nil
  then show ?case by simp
next
  case (Cons e rest)
  obtain t fn where e: "e = (t, fn)" by (cases e)
  from Cons.prems(1) e obtain b where b: "blocks fn = Some b" by (auto split: option.splits)
  with Cons.prems(2) e have ne: "b \<noteq> b0" by auto
  from Cons.prems(2) have rest: "\<forall>e\<in>set rest. blocks (snd e) \<noteq> Some b0" by simp
  have prev1: "\<forall>pb pt. Some (b, t) = Some (pb, pt) \<longrightarrow> pb \<noteq> b0" using ne by simp
  show ?case
  proof (cases prev)
    case None
    with Cons.prems e b have "animate_loop blocks fps rest (Some (b, t))
        (set_and_key b 1 (frame_no fps t) keys) = Inr (prev', keys')" by simp
    from Cons.IH[OF this rest prev1] ne show ?thesis by (simp add: set_and_key_other)
  next
    case (Some pp)
    obtain pb pt where pp: "pp = (pb, pt)" by (cases pp)
    with Some Cons.prems(3) have npb: "pb \<noteq> b0" by simp
    from pp Some Cons.prems e b have "animate_loop blocks fps rest (Some (b, t))
        (set_and_key pb 0 (frame_no fps t) (set_and_key b 0 (frame_no fps pt)
           (set_and_key b 1 (frame_no fps t) keys))) = Inr (prev', keys')" by simp
    from Cons.IH[OF this rest prev1] ne npb show ?thesis by (simp add: set_and_key_other)
  qed
qed

lemma animate_loop_Inl:
  "animate_loop blocks fps frames prev keys = Inl e \<Longrightarrow> e = KeyError"
proof (induction frames arbitrary: prev keys)
  case Nil
  then show ?case by simp
next
  case (Cons en rest)
  obtain t fn where en: "en = (t, fn)" by (cases en)
  show ?case
  proof (cases "blocks fn")
    case None
    with Cons.prems en show ?thesis by simp
  next
    case (Some b)
    with Cons.prems en Cons.IH show ?thesis by (cases prev) (auto simp: Let_def)
  qed
qed

lemma animate_Inl: "animate am blocks obj frames fps h = Inl e \<Longrightarrow> e = KeyError"
  by (auto simp: animate_def dest: animate_loop_Inl split: sum.splits option.splits)

lemma set_linear_fields [simp]:
  "sk_name (set_linear k) = sk_name k" "sk_data (set_linear k) = sk_data k"
  "keyframe_points (set_linear k) = [] \<longleftrightarrow> keyframe_points k = []"
  by (simp_all add: set_linear_def)

lemma animate_Inr:
  assumes "animate am blocks obj frames fps h = Inr h'" and "obj < length (objects h)"
      and "\<forall>fn b. blocks fn = Some b \<longrightarrow> b < length (shape_keys (objects h ! obj))"
  shows "\<exists>keys'. h' = set_keys obj keys' h
     \<and> length keys' = length (shape_keys (objects h ! obj))
     \<and> map sk_name keys' = map sk_name (shape_keys (objects h ! obj))
     \<and> map sk_data keys' = map sk_data (shape_keys (objects h ! obj))
     \<and> (\<forall>e\<in>set frames. \<forall>b. blocks (snd e) = Some b \<longrightarrow>
           has_keyframe keys' b (frame_no fps (fst e)) 1)
     \<and> (\<forall>b<length keys'. (\<forall>e\<in>set frames. blocks (snd e) \<noteq> Some b) \<longrightarrow>
           (keyframe_points (keys' ! b) = []
              \<longleftrightarrow> keyframe_points (shape_keys (objects h ! obj) ! b) = []))"
proof -
  let ?keys = "shape_keys (objects h ! obj)"
  from assms(1) obtain prev' keys1 where run:
    "animate_loop blocks fps frames None ?keys = Inr (prev', keys1)"
    by (auto simp: animate_def split: sum.splits)
  define keys' where "keys' = (if prev' = None then keys1 else map set_linear keys1)"
  have h': "h' = set_keys obj keys' h"
    using assms(1) run by (cases prev') (auto simp: animate_def keys'_def set_keys_def upd_obj_def)
  have len: "length keys' = length ?keys"
    using animate_loop_length[OF run] by (simp add: keys'_def)
  have names: "map sk_name keys' = map sk_name ?keys" "map sk_data keys' = map sk_data ?keys"
    using animate_loop_names[OF run] by (auto simp: keys'_def comp_def)
  have lift: "\<And>b f v. has_keyframe keys1 b f v \<Longrightarrow> has_keyframe keys' b f v"
    by (simp add: keys'_def set_linear_has)
  have own: "\<forall>e\<in>set frames. \<forall>b. blocks (snd e) = Some b \<longrightarrow>
           has_keyframe keys' b (frame_no fps (fst e)) 1"
  proof (intro ballI allI impI)
    fix e b assume e: "e \<in> set frames" and b: "blocks (snd e) = Some b"
    from e obtain i where i: "i < length frames" "frames ! i = e" by (auto simp: in_set_conv_nth)
    from assms(3) b have "b < length ?keys" by blast
    from animate_loop_own[OF run i(1) _ this] b i(2)
    show "has_keyframe keys' b (frame_no fps (fst e)) 1" by (auto intro: lift)
  qed
  have untouched: "\<forall>b<length keys'. (\<forall>e\<in>set frames. blocks (snd e) \<noteq> Some b) \<longrightarrow>
           (keyframe_points (keys' ! b) = [] \<longleftrightarrow> keyframe_points (?keys ! b) = [])"
  proof (intro allI impI)
    fix b assume lb: "b < length keys'" and nb: "\<forall>e\<in>set frames. blocks (snd e) \<noteq> Some b"
    from animate_loop_untouched[OF run nb] have same: "keys1 ! b = ?keys ! b" by simp
    from lb have "b < length keys1" by (simp add: keys'_def split: if_splits)
    with same show "keyframe_points (keys' ! b) = [] \<longleftrightarrow> keyframe_points (?keys ! b) = []"
      by (simp add: keys'_def)
  qed
  from h' len names own untouched show ?thesis by blast
qed

lemma animate_Inr_known:
  "animate am blocks obj frames fps h = Inr h' \<Longrightarrow> \<forall>e\<in>set frames. snd e \<in> dom blocks"
proof (rule ccontr)
  assume a: "animate am blocks obj frames fps h = Inr h'"
    and "\<not> (\<forall>e\<in>set frames. snd e \<in> dom blocks)"
  then have "\<exists>e\<in>set frames. snd e \<notin> dom blocks" by simp
  from animate_loop_KeyError[OF this] a show False by (simp add: animate_def)
qed

lemma static_loop_frames_Inl:
  "static_loop_frames final_time group_times n = Inl e \<Longrightarrow> other_error e"
  by (auto simp: static_loop_frames_def Let_def other_error_def split: if_splits)

lemma fits_set_keys: "fits h obj vm \<Longrightarrow> fits (set_keys obj ks h) obj vm"
  by (auto simp: fits_def set_keys_def)

lemma make_blocks_Inr:
  assumes run: "make_blocks am frames final_time static fps subobj vm h = Inr (blocks, h')"
      and fits: "fits h subobj vm"
      and fresh: "shape_keys (objects h ! subobj) = []"
  shows "\<exists>keys. h' = set_keys subobj keys h
     \<and> (\<not> static \<longrightarrow> nonstatic_keys am frames fps vm keys
           \<and> blocks = (\<lambda>k. if k < length (am_frames am) then Some k else None))"
proof -
  have obj: "subobj < length (objects h)" using fits by (simp add: fits_def)
  show ?thesis
  proof (cases static)
    case False
    from run False obtain h1 where
      sb: "single_blocks subobj vm 0 (am_frames am) Map.empty h = Inr (blocks, h1)"
      and an: "animate am blocks subobj frames fps h1 = Inr h'"
      by (auto simp: make_blocks_def split: sum.splits)
    from single_blocks_Inr[OF sb fits] obtain sfs where s0:
      "am_frames am = map Single sfs"
      "h1 = add_keys subobj (map (block_of vm) sfs) h"
      "blocks = (\<lambda>k. if 0 \<le> k \<and> k < 0 + length (am_frames am)
                        then Some (length (shape_keys (objects h ! subobj)) + (k - 0))
                        else Map.empty k)"
      by blast
    have s3: "blocks = (\<lambda>k. if k < length (am_frames am) then Some k else None)"
      unfolding s0(3) using fresh by (simp cong: if_cong)
    note s = s0(1,2) s3
    let ?ks = "map (block_of vm) sfs"
    have h1: "h1 = set_keys subobj ?ks h" using s(2) fresh by (simp add: add_keys_set_keys)
    have obj1: "subobj < length (objects h1)" using obj by (simp add: h1 set_keys_def)
    have sk1: "shape_keys (objects h1 ! subobj) = ?ks"
      using obj by (simp add: h1 shape_keys_set_keys)
    have n: "length (am_frames am) = length sfs" using s(1) by simp
    have refs: "\<forall>fn b. blocks fn = Some b \<longrightarrow> b < length (shape_keys (objects h1 ! subobj))"
      by (auto simp: s(3) sk1 n split: if_splits)
    from animate_Inr[OF an obj1 refs] obtain keys' where k:
      "h' = set_keys subobj keys' h1" "length keys' = length ?ks"
      "map sk_name keys' = map sk_name ?ks" "map sk_data keys' = map sk_data ?ks"
      "\<forall>e\<in>set frames. \<forall>b. blocks (snd e) = Some b \<longrightarrow>
           has_keyframe keys' b (frame_no fps (fst e)) 1"
      "\<forall>b<length keys'. (\<forall>e\<in>set frames. blocks (snd e) \<noteq> Some b) \<longrightarrow>
           (keyframe_points (keys' ! b) = [] \<longleftrightarrow> keyframe_points (?ks ! b) = [])"
      unfolding sk1 by blast
    have h': "h' = set_keys subobj keys' h" using k(1) obj by (simp add: h1 set_keys_set_keys)
    have per: "\<forall>k<length (am_frames am). \<exists>sf. am_frames am ! k = Single sf
           \<and> sk_name (keys' ! k) = sf_name sf
           \<and> sk_data (keys' ! k) = map ((!) (frame_verts sf)) vm
           \<and> (k \<notin> snd ` set frames \<longrightarrow> keyframe_points (keys' ! k) = [])"
    proof (intro allI impI)
      fix j assume j: "j < length (am_frames am)"
      then have js: "j < length sfs" "j < length keys'" using n k(2) by simp_all
      have a: "am_frames am ! j = Single (sfs ! j)" using s(1) js(1) by simp
      have "sk_name (keys' ! j) = map sk_name keys' ! j" using js(2) by simp
      also have "\<dots> = sf_name (sfs ! j)" using js(1) by (simp add: k(3) block_of_def)
      finally have b: "sk_name (keys' ! j) = sf_name (sfs ! j)" .
      have "sk_data (keys' ! j) = map sk_data keys' ! j" using js(2) by simp
      also have "\<dots> = map ((!) (frame_verts (sfs ! j))) vm"
        using js(1) by (simp add: k(4) block_of_def)
      finally have c: "sk_data (keys' ! j) = map ((!) (frame_verts (sfs ! j))) vm" .
      have d: "j \<notin> snd ` set frames \<longrightarrow> keyframe_points (keys' ! j) = []"
      proof
        assume "j \<notin> snd ` set frames"
        then have "\<forall>e\<in>set frames. blocks (snd e) \<noteq> Some j"
          by (auto simp: s(3) split: if_splits)
        with k(6) js have "keyframe_points (keys' ! j) = [] \<longleftrightarrow> keyframe_points (?ks ! j) = []"
          by blast
        then show "keyframe_points (keys' ! j) = []" using js(1) by (simp add: block_of_def)
      qed
      from a b c d show "\<exists>sf. am_frames am ! j = Single sf
           \<and> sk_name (keys' ! j) = sf_name sf
           \<and> sk_data (keys' ! j) = map ((!) (frame_verts sf)) vm
           \<and> (j \<notin> snd ` set frames \<longrightarrow> keyframe_points (keys' ! j) = [])" by blast
    qed
    have own: "\<forall>e\<in>set frames. has_keyframe keys' (snd e) (frame_no fps (fst e)) 1"
    proof
      fix e assume e: "e \<in> set frames"
      with animate_Inr_known[OF an] have "snd e \<in> dom blocks" by blast
      then have "blocks (snd e) = Some (snd e)" by (auto simp: s(3) split: if_splits)
      with k(5) e show "has_keyframe keys' (snd e) (frame_no fps (fst e)) 1" by blast
    qed
    have "nonstatic_keys am frames fps vm keys'"
      unfolding nonstatic_keys_def using k(2) n per own by simp
    with h' s(3) False show ?thesis by blast
  next
    case True
    from run True obtain gfs gts where
      g: "am_frames am ! snd (hd frames) = Group gfs gts"
      by (auto simp: make_blocks_def split: if_splits frame.splits)
    from run True g obtain h1 lf where
      gb: "group_blocks subobj vm 0 gfs Map.empty h = Inr (blocks, h1)"
      and an: "animate am blocks subobj lf fps h1 = Inr h'"
      by (auto simp: make_blocks_def split: if_splits sum.splits)
    from group_blocks_Inr[OF gb fits] have s0:
      "h1 = add_keys subobj (map (block_of vm) gfs) h"
      "blocks = (\<lambda>k. if 0 \<le> k \<and> k < 0 + length gfs
                        then Some (length (shape_keys (objects h ! subobj)) + (k - 0))
                        else Map.empty k)"
      by blast+
    have s3: "blocks = (\<lambda>k. if k < length gfs then Some k else None)"
      unfolding s0(2) using fresh by (simp cong: if_cong)
    note s = s0(1) s3
    let ?ks = "map (block_of vm) gfs"
    have h1: "h1 = set_keys subobj ?ks h" using s(1) fresh by (simp add: add_keys_set_keys)
    have obj1: "subobj < length (objects h1)" using obj by (simp add: h1 set_keys_def)
    have sk1: "shape_keys (objects h1 ! subobj) = ?ks"
      using obj by (simp add: h1 shape_keys_set_keys)
    have refs: "\<forall>fn b. blocks fn = Some b \<longrightarrow> b < length (shape_keys (objects h1 ! subobj))"
      by (auto simp: s(2) sk1 split: if_splits)
    from animate_Inr[OF an obj1 refs] obtain keys' where "h' = set_keys subobj keys' h1" by blast
    then have "h' = set_keys subobj keys' h" using obj by (simp add: h1 set_keys_set_keys)
    with True show ?thesis by blast
  qed
qed

lemma make_blocks_Inl:
  assumes "make_blocks am frames final_time static fps subobj vm h = Inl e"
  shows "other_error e \<or> precondition_error am frames static e"
proof (cases static)
  case False
  show ?thesis
  proof (cases "single_blocks subobj vm 0 (am_frames am) Map.empty h")
    case (Inl e1)
    with assms False have "e = e1" by (simp add: make_blocks_def)
    with single_blocks_Inl[OF Inl] False show ?thesis
      by (auto simp: other_error_def precondition_error_def list_ex_iff)
  next
    case (Inr p)
    obtain b h1 where "p = (b, h1)" by (cases p)
    with assms False Inr have "animate am b subobj frames fps h1 = Inl e"
      by (auto simp: make_blocks_def split: sum.splits)
    from animate_Inl[OF this] show ?thesis by (simp add: other_error_def)
  qed
next
  case True
  show ?thesis
  proof (cases "length frames = 1")
    case False
    with assms True show ?thesis by (simp add: make_blocks_def precondition_error_def)
  next
    case len: True
    show ?thesis
    proof (cases "snd (hd frames) < length (am_frames am)")
      case False
      with assms True len show ?thesis by (simp add: make_blocks_def other_error_def)
    next
      case idx: True
      show ?thesis
      proof (cases "am_frames am ! snd (hd frames)")
        case (Single sf)
        with assms True len idx show ?thesis
          by (simp add: make_blocks_def precondition_error_def)
      next
        case (Group gfs gts)
        with assms True len idx have
          "(case group_blocks subobj vm 0 gfs Map.empty h of
                Inl e \<Rightarrow> Inl e
              | Inr (blocks, h1) \<Rightarrow>
                  (case static_loop_frames final_time gts (length gfs) of
                     Inl e \<Rightarrow> Inl e
                   | Inr loop_frames \<Rightarrow>
                       (case animate am blocks subobj loop_frames fps h1 of
                          Inl e \<Rightarrow> Inl e
                        | Inr h2 \<Rightarrow> Inr (blocks, h2)))) = Inl e"
          by (simp add: make_blocks_def)
        then have "other_error e"
          by (auto simp: other_error_def split: sum.splits
                dest: group_blocks_Inl animate_Inl static_loop_frames_Inl[unfolded other_error_def])
        then show ?thesis by simp
      qed
    qed
  qed
qed

lemma make_blocks_raises:
  "fits h subobj vm \<Longrightarrow> \<exists>f\<in>set (am_frames am). frame_type f \<noteq> SINGLE \<Longrightarrow>
   \<forall>f\<in>set (am_frames am). \<forall>sf. f = Single sf \<longrightarrow> (\<forall>i\<in>set vm. i < length (frame_verts sf)) \<Longrightarrow>
   make_blocks am frames final_time False fps subobj vm h = Inl (NonStaticFrameType GROUP)"
  "length frames \<noteq> 1 \<Longrightarrow>
   make_blocks am frames final_time True fps subobj vm h = Inl (StaticFrameCount (length frames))"
  "length frames = 1 \<Longrightarrow> snd (hd frames) < length (am_frames am) \<Longrightarrow>
   frame_type (am_frames am ! snd (hd frames)) \<noteq> GROUP \<Longrightarrow>
   make_blocks am frames final_time True fps subobj vm h = Inl (StaticFrameType SINGLE)"
proof -
  show "fits h subobj vm \<Longrightarrow> \<exists>f\<in>set (am_frames am). frame_type f \<noteq> SINGLE \<Longrightarrow>
   \<forall>f\<in>set (am_frames am). \<forall>sf. f = Single sf \<longrightarrow> (\<forall>i\<in>set vm. i < length (frame_verts sf)) \<Longrightarrow>
   make_blocks am frames final_time False fps subobj vm h = Inl (NonStaticFrameType GROUP)"
    using single_blocks_raises[of h subobj vm "am_frames am" 0 Map.empty]
    by (simp add: make_blocks_def)
  show "length frames \<noteq> 1 \<Longrightarrow>
   make_blocks am frames final_time True fps subobj vm h = Inl (StaticFrameCount (length frames))"
    by (simp add: make_blocks_def)
  show "length frames = 1 \<Longrightarrow> snd (hd frames) < length (am_frames am) \<Longrightarrow>
   frame_type (am_frames am ! snd (hd frames)) \<noteq> GROUP \<Longrightarrow>
   make_blocks am frames final_time True fps subobj vm h = Inl (StaticFrameType SINGLE)"
    by (cases "am_frames am ! snd (hd frames)") (simp_all add: make_blocks_def)
qed

lemma new_material_Inr:
  "new_material aifi am pal cfg skin_idx mat sal mats h = Inr (mats', h') \<Longrightarrow>
   objects h' = objects h \<and> meshes h' = meshes h \<and> scene_objects h' = scene_objects h
   \<and> (\<exists>x. materials h' = materials h @ [(mat, x)])"
  by (auto simp: new_material_def Let_def split: if_splits option.splits prod.splits)

lemma new_material_Inl:
  "new_material aifi am pal cfg skin_idx mat sal mats h = Inl e \<Longrightarrow> other_error e"
  by (auto simp: new_material_def Let_def other_error_def
          split: if_splits option.splits prod.splits)

lemma setup_material_Inr:
  assumes "setup_material aifi am pal cfg mdl_name obj_name skin_idx i mats h = Inr ((mat, mats'), h')"
  shows "\<exists>sal. cfg ''sample_as_light'' = Some sal
     \<and> mat = material_name mdl_name obj_name skin_idx i sal
     \<and> objects h' = objects h \<and> meshes h' = meshes h \<and> scene_objects h' = scene_objects h
     \<and> mat \<in> fst ` set (materials h')
     \<and> (mat \<in> fst ` set (materials h) \<longrightarrow> h' = h \<and> mats' = mats)
     \<and> (\<exists>new. materials h' = materials h @ new)"
proof -
  from assms obtain sal where sal: "cfg ''sample_as_light'' = Some sal"
    by (auto simp: setup_material_def split: option.splits)
  let ?mat = "material_name mdl_name obj_name skin_idx i sal"
  show ?thesis
  proof (cases "?mat \<in> fst ` set (materials h)")
    case True
    with assms sal have "mat = ?mat" "h' = h" "mats' = mats"
      by (auto simp: setup_material_def Let_def split: option.splits)
    with sal True show ?thesis by simp
  next
    case False
    with assms sal obtain m1 h1 where nm: "new_material aifi am pal cfg skin_idx ?mat sal mats h = Inr (m1, h1)"
      by (auto simp: setup_material_def Let_def split: sum.splits)
    with assms sal False have eq: "mat = ?mat" "h' = h1" "mats' = m1"
      by (auto simp: setup_material_def Let_def split: option.splits)
    from new_material_Inr[OF nm] eq sal False show ?thesis by auto
  qed
qed

lemma setup_material_Inl:
  "setup_material aifi am pal cfg mdl_name obj_name skin_idx i mats h = Inl e \<Longrightarrow> other_error e"
  by (auto simp: setup_material_def Let_def other_error_def
          dest: new_material_Inl[unfolded other_error_def]
          split: option.splits sum.splits if_splits)

lemma set_loop_uvs_Inl: "set_loop_uvs w h loops tcs = Inl e \<Longrightarrow> e = ZeroDivisionError"
  by (induction w h loops tcs rule: set_loop_uvs.induct) (auto split: if_splits sum.splits)

lemma set_face_uvs_Inl: "set_face_uvs am faces ts = Inl e \<Longrightarrow> e = ZeroDivisionError"
  by (induction am faces ts rule: set_face_uvs.induct)
     (auto split: sum.splits dest: set_loop_uvs_Inl)

lemma set_uvs_Inl: "set_uvs m am ts = Inl e \<Longrightarrow> e = ZeroDivisionError"
  by (auto simp: set_uvs_def Let_def split: sum.splits dest: set_face_uvs_Inl)

lemma set_uvs_Inr: "set_uvs m am ts = Inr m' \<Longrightarrow> \<exists>uvs. m' = m\<lparr>uv_layers := uvs\<rparr>"
  by (auto simp: set_uvs_def Let_def split: sum.splits)

lemma apply_material_Inr:
  "apply_material am msh mat ts h = Inr h' \<Longrightarrow> msh < length (meshes h) \<Longrightarrow>
   \<exists>uvs. h' = h\<lparr>meshes := (meshes h)[msh := (meshes h ! msh)\<lparr>mesh_materials :=
                      mesh_materials (meshes h ! msh) @ [mat], uv_layers := uvs\<rparr>]\<rparr>"
  by (auto simp: apply_material_def Let_def upd_mesh_def split: sum.splits dest!: set_uvs_Inr)

lemma apply_material_Inl:
  "apply_material am msh mat ts h = Inl e \<Longrightarrow> other_error e"
  by (auto simp: apply_material_def Let_def other_error_def split: sum.splits dest: set_uvs_Inl)

lemma add_tri_set_Inr:
  assumes run: "add_tri_set aifi am pal cfg mdl_name obj_name frames skin_idx final_time static
                  fps obj mats i ts h = Inr ((blocks, mats'), h')"
  shows "\<exists>sub m sal. cfg ''sample_as_light'' = Some sal
     \<and> objects h' = objects h @ [sub] \<and> meshes h' = meshes h @ [m]
     \<and> scene_objects h' = scene_objects h @ [length (objects h)]
     \<and> built_tri_set am obj_name frames fps static obj
          (material_name mdl_name obj_name skin_idx i sal) (length (meshes h)) ts i sub m
     \<and> (\<not> static \<longrightarrow> blocks = frame_blocks am)
     \<and> material_name mdl_name obj_name skin_idx i sal \<in> fst ` set (materials h')
     \<and> (material_name mdl_name obj_name skin_idx i sal \<in> fst ` set (materials h)
           \<longrightarrow> materials h' = materials h \<and> mats' = mats)
     \<and> (\<exists>new. materials h' = materials h @ new)"
proof -
  from run obtain msh subobj vm h1 where
    nmo: "new_mesh_object am obj_name obj i ts h = Inr ((msh, subobj, vm), h1)"
    by (auto simp: add_tri_set_def split: sum.splits)
  from run nmo obtain h2 where
    mb: "make_blocks am frames final_time static fps subobj vm h1 = Inr (blocks, h2)"
    by (auto simp: add_tri_set_def split: sum.splits)
  from run nmo mb obtain mat h3 where
    sm: "setup_material aifi am pal cfg mdl_name obj_name skin_idx i mats h2 = Inr ((mat, mats'), h3)"
    by (auto simp: add_tri_set_def split: sum.splits)
  from run nmo mb sm have
    ap: "apply_material am msh mat ts h3 = Inr h'"
    by (auto simp: add_tri_set_def split: sum.splits)
  from new_mesh_object_Inr[OF nmo] obtain verts nts where n:
    "initial_verts am = Inr verts"
    "\<forall>t\<in>set ts. t < length (am_tris am)"
    "\<forall>v\<in>set (concat (tri_set_tris am ts)). v < length verts"
    "vm = tri_set_vert_map am ts"
    "length nts = length ts"
    "\<forall>f<length ts. length (nts ! f) = length (am_tris am ! (ts ! f))
           \<and> (\<forall>j<length (am_tris am ! (ts ! f)). nts ! f ! j < length vm
                  \<and> vm ! (nts ! f ! j) = am_tris am ! (ts ! f) ! j)"
    "msh = length (meshes h)" "subobj = length (objects h)"
    "h1 = nmo_host am obj_name obj i vm nts verts h" by blast
  let ?m0 = "\<lparr>mesh_name = subobj_name obj_name i, mesh_verts = map ((!) verts) vm,
            mesh_edges = [], mesh_faces = nts, mesh_materials = [], uv_layers = []\<rparr>"
  let ?s0 = "\<lparr>ob_name = subobj_name obj_name i, ob_data = Some (length (meshes h)),
            ob_parent = Some obj, shape_keys = []\<rparr>"
  have o1: "objects h1 = objects h @ [?s0]" and m1: "meshes h1 = meshes h @ [?m0]"
    and sc1: "scene_objects h1 = scene_objects h @ [length (objects h)]"
    and mat1: "materials h1 = materials h"
    by (simp_all add: n(9) nmo_host_def)
  have fits: "fits h1 subobj vm" by (simp add: fits_def o1 m1 n(8))
  have fresh: "shape_keys (objects h1 ! subobj) = []" by (simp add: o1 n(8))
  from make_blocks_Inr[OF mb fits fresh] obtain keys where k:
    "h2 = set_keys subobj keys h1"
    "\<not> static \<longrightarrow> nonstatic_keys am frames fps vm keys
           \<and> blocks = (\<lambda>k. if k < length (am_frames am) then Some k else None)" by blast
  have o2: "objects h2 = objects h @ [?s0\<lparr>shape_keys := keys\<rparr>]"
    and m2: "meshes h2 = meshes h @ [?m0]"
    and sc2: "scene_objects h2 = scene_objects h @ [length (objects h)]"
    and mat2: "materials h2 = materials h"
    by (simp_all add: k(1) set_keys_def o1 m1 sc1 mat1 n(8))
  from setup_material_Inr[OF sm] obtain sal where s:
    "cfg ''sample_as_light'' = Some sal"
    "mat = material_name mdl_name obj_name skin_idx i sal"
    "objects h3 = objects h2" "meshes h3 = meshes h2" "scene_objects h3 = scene_objects h2"
    "mat \<in> fst ` set (materials h3)"
    "mat \<in> fst ` set (materials h2) \<longrightarrow> h3 = h2 \<and> mats' = mats"
    "\<exists>new. materials h3 = materials h2 @ new" by blast
  have mshlt: "msh < length (meshes h3)" by (simp add: s(4) m2 n(7))
  from apply_material_Inr[OF ap mshlt] obtain uvs where a:
    "h' = h3\<lparr>meshes := (meshes h3)[msh := (meshes h3 ! msh)\<lparr>mesh_materials :=
                      mesh_materials (meshes h3 ! msh) @ [mat], uv_layers := uvs\<rparr>]\<rparr>" by blast
  let ?m = "?m0\<lparr>mesh_materials := [mat], uv_layers := uvs\<rparr>"
  let ?sub = "?s0\<lparr>shape_keys := keys\<rparr>"
  have o': "objects h' = objects h @ [?sub]" by (simp add: a s(3) o2)
  have m': "meshes h' = meshes h @ [?m]" by (simp add: a s(4) m2 n(7))
  have sc': "scene_objects h' = scene_objects h @ [length (objects h)]" by (simp add: a s(5) sc2)
  have mat': "materials h' = materials h3" by (simp add: a)
  have bo: "built_object obj_name obj i (length (meshes h)) ?sub"
    by (simp add: built_object_def)
  have bm: "built_mesh am obj_name i ts mat ?m"
    unfolding built_mesh_def using n(1,2,4,5,6) by (auto simp: n(4))
  have bt: "built_tri_set am obj_name frames fps static obj mat (length (meshes h)) ts i ?sub ?m"
    unfolding built_tri_set_def using bo bm k(2) n(4) by simp
  have bl: "\<not> static \<longrightarrow> blocks = frame_blocks am" using k(2) by (simp add: frame_blocks_def)
  have mm: "mat \<in> fst ` set (materials h) \<longrightarrow> materials h' = materials h \<and> mats' = mats"
    using s(7) mat2 mat' by auto
  have ext: "\<exists>new. materials h' = materials h @ new" using s(8) mat2 mat' by simp
  have mem: "mat \<in> fst ` set (materials h')" using s(6) mat' by simp
  show ?thesis
  proof (intro exI[of _ ?sub] exI[of _ ?m] exI[of _ sal] conjI)
    show "cfg ''sample_as_light'' = Some sal" by (rule s(1))
    show "objects h' = objects h @ [?sub]" by (rule o')
    show "meshes h' = meshes h @ [?m]" by (rule m')
    show "scene_objects h' = scene_objects h @ [length (objects h)]" by (rule sc')
    show "built_tri_set am obj_name frames fps static obj
            (material_name mdl_name obj_name skin_idx i sal) (length (meshes h)) ts i ?sub ?m"
      using bt by (simp only: s(2))
    show "\<not> static \<longrightarrow> blocks = frame_blocks am" by (rule bl)
    show "material_name mdl_name obj_name skin_idx i sal \<in> fst ` set (materials h')"
      using mem by (simp only: s(2))
    show "material_name mdl_name obj_name skin_idx i sal \<in> fst ` set (materials h)
           \<longrightarrow> materials h' = materials h \<and> mats' = mats"
      using mm by (simp only: s(2))
    show "\<exists>new. materials h' = materials h @ new" by (rule ext)
  qed
qed

lemma add_tri_set_Inl:
  assumes "add_tri_set aifi am pal cfg mdl_name obj_name frames skin_idx final_time static
             fps obj mats i ts h = Inl e"
  shows "other_error e \<or> precondition_error am frames static e"
proof (cases "new_mesh_object am obj_name obj i ts h")
  case (Inl e1)
  with assms have "e = e1" by (simp add: add_tri_set_def)
  with new_mesh_object_Inl[OF Inl] show ?thesis by (simp add: other_error_def)
next
  case (Inr p1)
  obtain msh subobj vm h1 where p1: "p1 = ((msh, subobj, vm), h1)" by (cases p1) auto
  show ?thesis
  proof (cases "make_blocks am frames final_time static fps subobj vm h1")
    case (Inl e2)
    with assms Inr p1 have "e = e2" by (simp add: add_tri_set_def)
    with make_blocks_Inl[OF Inl] show ?thesis by simp
  next
    case mb: (Inr p2)
    obtain blocks h2 where p2: "p2 = (blocks, h2)" by (cases p2)
    show ?thesis
    proof (cases "setup_material aifi am pal cfg mdl_name obj_name skin_idx i mats h2")
      case (Inl e3)
      with assms Inr p1 mb p2 have "e = e3" by (simp add: add_tri_set_def)
      with setup_material_Inl[OF Inl] show ?thesis by simp
    next
      case sm: (Inr p3)
      obtain mat mats1 h3 where p3: "p3 = ((mat, mats1), h3)" by (cases p3) auto
      with assms Inr p1 mb p2 sm have "apply_material am msh mat ts h3 = Inl e"
        by (auto simp: add_tri_set_def split: sum.splits)
      from apply_material_Inl[OF this] show ?thesis by simp
    qed
  qed
qed

lemma add_tri_sets_Inr:
  assumes "add_tri_sets aifi am pal cfg mdl_name obj_name frames skin_idx final_time static fps
             obj i tss acc h = Inr ((bo, mats'), h')"
      and "cfg ''sample_as_light'' = Some sal"
  shows "\<exists>subs ms. objects h' = objects h @ subs \<and> meshes h' = meshes h @ ms
     \<and> length subs = length tss \<and> length ms = length tss
     \<and> (\<forall>k<length tss. built_tri_set am obj_name frames fps static obj
            (material_name mdl_name obj_name skin_idx (i + k) sal) (length (meshes h) + k)
            (tss ! k) (i + k) (subs ! k) (ms ! k))
     \<and> (tss = [] \<longrightarrow> bo = fst acc)
     \<and> (tss \<noteq> [] \<longrightarrow> (\<exists>b. bo = Some b) \<and> (\<not> static \<longrightarrow> bo = Some (frame_blocks am)))
     \<and> (\<exists>new. materials h' = materials h @ new)
     \<and> (\<forall>k<length tss. material_name mdl_name obj_name skin_idx (i + k) sal
            \<in> fst ` set (materials h'))
     \<and> ((\<forall>k<length tss. material_name mdl_name obj_name skin_idx (i + k) sal
            \<in> fst ` set (materials h)) \<longrightarrow> materials h' = materials h \<and> mats' = snd acc)"
  using assms
proof (induction tss arbitrary: i acc h)
  case Nil
  then show ?case by auto
next
  case (Cons ts rest)
  let ?mat = "\<lambda>k. material_name mdl_name obj_name skin_idx k sal"
  from Cons.prems(1) obtain blocks mats1 h1 where
    one: "add_tri_set aifi am pal cfg mdl_name obj_name frames skin_idx final_time static
             fps obj (snd acc) i ts h = Inr ((blocks, mats1), h1)"
    and more: "add_tri_sets aifi am pal cfg mdl_name obj_name frames skin_idx final_time static
             fps obj (Suc i) rest (Some blocks, mats1) h1 = Inr ((bo, mats'), h')"
    by (auto split: sum.splits)
  from add_tri_set_Inr[OF one] Cons.prems(2) obtain sub m where a:
    "objects h1 = objects h @ [sub]" "meshes h1 = meshes h @ [m]"
    "built_tri_set am obj_name frames fps static obj (?mat i) (length (meshes h)) ts i sub m"
    "\<not> static \<longrightarrow> blocks = frame_blocks am"
    "?mat i \<in> fst ` set (materials h1)"
    "?mat i \<in> fst ` set (materials h) \<longrightarrow> materials h1 = materials h \<and> mats1 = snd acc"
    "\<exists>new. materials h1 = materials h @ new" by auto
  from Cons.IH[OF more Cons.prems(2)] obtain subs ms where r:
    "objects h' = objects h1 @ subs" "meshes h' = meshes h1 @ ms"
    "length subs = length rest" "length ms = length rest"
    "\<forall>k<length rest. built_tri_set am obj_name frames fps static obj
            (?mat (Suc i + k)) (length (meshes h1) + k) (rest ! k) (Suc i + k) (subs ! k) (ms ! k)"
    "rest = [] \<longrightarrow> bo = fst (Some blocks, mats1)"
    "rest \<noteq> [] \<longrightarrow> (\<exists>b. bo = Some b) \<and> (\<not> static \<longrightarrow> bo = Some (frame_blocks am))"
    "\<exists>new. materials h' = materials h1 @ new"
    "\<forall>k<length rest. ?mat (Suc i + k) \<in> fst ` set (materials h')"
    "(\<forall>k<length rest. ?mat (Suc i + k) \<in> fst ` set (materials h1))
        \<longrightarrow> materials h' = materials h1 \<and> mats' = snd (Some blocks, mats1)"
    by blast
  have o: "objects h' = objects h @ (sub # subs)" using r(1) a(1) by simp
  have me: "meshes h' = meshes h @ (m # ms)" using r(2) a(2) by simp
  have built: "\<forall>k<length (ts # rest). built_tri_set am obj_name frames fps static obj
            (?mat (i + k)) (length (meshes h) + k) ((ts # rest) ! k) (i + k)
            ((sub # subs) ! k) ((m # ms) ! k)"
  proof (intro allI impI)
    fix k assume k: "k < length (ts # rest)"
    show "built_tri_set am obj_name frames fps static obj
            (?mat (i + k)) (length (meshes h) + k) ((ts # rest) ! k) (i + k)
            ((sub # subs) ! k) ((m # ms) ! k)"
    proof (cases k)
      case 0
      with a(3) show ?thesis by simp
    next
      case (Suc j)
      with k r(5) have "built_tri_set am obj_name frames fps static obj
            (?mat (Suc i + j)) (length (meshes h1) + j) (rest ! j) (Suc i + j) (subs ! j) (ms ! j)"
        by simp
      with Suc show ?thesis by (simp add: a(2))
    qed
  qed
  have bo: "(\<exists>b. bo = Some b) \<and> (\<not> static \<longrightarrow> bo = Some (frame_blocks am))"
    using r(6,7) a(4) by (cases "rest = []") auto
  from a(7) r(8) have ext: "\<exists>new. materials h' = materials h @ new" by auto
  from r(8) have sub1: "fst ` set (materials h1) \<subseteq> fst ` set (materials h')" by auto
  from a(7) have sub0: "fst ` set (materials h) \<subseteq> fst ` set (materials h1)" by auto
  have mem: "\<forall>k<length (ts # rest). ?mat (i + k) \<in> fst ` set (materials h')"
  proof (intro allI impI)
    fix k assume k: "k < length (ts # rest)"
    show "?mat (i + k) \<in> fst ` set (materials h')"
    proof (cases k)
      case 0
      with a(5) sub1 show ?thesis by auto
    next
      case (Suc j)
      with k r(9) show ?thesis by simp
    qed
  qed
  have same: "(\<forall>k<length (ts # rest). ?mat (i + k) \<in> fst ` set (materials h))
        \<longrightarrow> materials h' = materials h \<and> mats' = snd acc"
  proof
    assume all: "\<forall>k<length (ts # rest). ?mat (i + k) \<in> fst ` set (materials h)"
    then have "?mat (i + 0) \<in> fst ` set (materials h)" by blast
    with a(6) have e1: "materials h1 = materials h" "mats1 = snd acc" by simp_all
    have "\<forall>k<length rest. ?mat (Suc i + k) \<in> fst ` set (materials h1)"
    proof (intro allI impI)
      fix k assume "k < length rest"
      then have "Suc k < length (ts # rest)" by simp
      with all have "?mat (i + Suc k) \<in> fst ` set (materials h)" by blast
      then show "?mat (Suc i + k) \<in> fst ` set (materials h1)" by (simp add: e1(1))
    qed
    with r(10) e1 show "materials h' = materials h \<and> mats' = snd acc" by simp
  qed
  show ?case
  proof (intro exI[of _ "sub # subs"] exI[of _ "m # ms"] conjI)
    show "objects h' = objects h @ sub # subs" by (rule o)
    show "meshes h' = meshes h @ m # ms" by (rule me)
    show "length (sub # subs) = length (ts # rest)" using r(3) by simp
    show "length (m # ms) = length (ts # rest)" using r(4) by simp
    show "\<forall>k<length (ts # rest). built_tri_set am obj_name frames fps static obj
            (?mat (i + k)) (length (meshes h) + k) ((ts # rest) ! k) (i + k)
            ((sub # subs) ! k) ((m # ms) ! k)" by (rule built)
    show "ts # rest = [] \<longrightarrow> bo = fst acc" by simp
    show "ts # rest \<noteq> [] \<longrightarrow> (\<exists>b. bo = Some b) \<and> (\<not> static \<longrightarrow> bo = Some (frame_blocks am))"
      using bo by simp
    show "\<exists>new. materials h' = materials h @ new" by (rule ext)
    show "\<forall>k<length (ts # rest). ?mat (i + k) \<in> fst ` set (materials h')" by (rule mem)
    show "(\<forall>k<length (ts # rest). ?mat (i + k) \<in> fst ` set (materials h))
        \<longrightarrow> materials h' = materials h \<and> mats' = snd acc" by (rule same)
  qed
qed

lemma add_tri_sets_Inl:
  "add_tri_sets aifi am pal cfg mdl_name obj_name frames skin_idx final_time static fps
     obj i tss acc h = Inl e \<Longrightarrow> other_error e \<or> precondition_error am frames static e"
proof (induction tss arbitrary: i acc h)
  case Nil
  then show ?case by simp
next
  case (Cons ts rest)
  show ?case
  proof (cases "add_tri_set aifi am pal cfg mdl_name obj_name frames skin_idx final_time static
             fps obj (snd acc) i ts h")
    case (Inl e1)
    with Cons.prems have "e = e1" by simp
    with add_tri_set_Inl[OF Inl] show ?thesis by simp
  next
    case (Inr p)
    obtain blocks mats1 h1 where "p = ((blocks, mats1), h1)" by (cases p) auto
    with Cons.prems Inr have "add_tri_sets aifi am pal cfg mdl_name obj_name frames skin_idx
         final_time static fps obj (Suc i) rest (Some blocks, mats1) h1 = Inl e" by simp
    from Cons.IH[OF this] show ?thesis .
  qed
qed

lemma add_tri_sets_sample_as_light:
  "add_tri_sets aifi am pal cfg mdl_name obj_name frames skin_idx final_time static fps
     obj i (ts # rest) acc h = Inr r \<Longrightarrow> \<exists>sal. cfg ''sample_as_light'' = Some sal"
proof -
  assume a: "add_tri_sets aifi am pal cfg mdl_name obj_name frames skin_idx final_time static fps
     obj i (ts # rest) acc h = Inr r"
  then obtain blocks mats1 h1 where
    "add_tri_set aifi am pal cfg mdl_name obj_name frames skin_idx final_time static
             fps obj (snd acc) i ts h = Inr ((blocks, mats1), h1)"
    by (auto split: sum.splits)
  from add_tri_set_Inr[OF this] show ?thesis by blast
qed

end
